theory Spec2Isabelle
  imports Main "HOL-Library.Word" "HOL-Library.Multiset"
begin

unbundle bit_operations_syntax

section \<open>Shared data: buffers, hints, the external interface\<close>

text \<open>
  The three filters of \<^verbatim>\<open>server/modules/filter\<close> (\<^verbatim>\<open>ccrfilter.c\<close>, \<^verbatim>\<open>qlafilter.c\<close>,
  \<^verbatim>\<open>topfilter.c\<close>) are embedded function by function. Every entry point is \<^verbatim>\<open>static\<close> in
  its file and the three files reuse the names \<^verbatim>\<open>createInstance\<close>, \<^verbatim>\<open>newSession\<close>,
  \<^verbatim>\<open>routeQuery\<close>, ...; here they carry the prefix \<open>ccr_\<close>, \<open>qla_\<close> or \<open>top_\<close>, and so do the
  fields of the instance and session structures.
\<close>

datatype error =
    UncompiledRegex   \<comment> \<open>\<^verbatim>\<open>regexec\<close> on a \<^verbatim>\<open>regex_t\<close> that no successful \<^verbatim>\<open>regcomp\<close> filled\<close>
  | OutOfBounds       \<comment> \<open>an array read outside the allocated slots\<close>
  | Aborted           \<comment> \<open>\<^verbatim>\<open>MXS_ABORT_IF_NULL\<close> fired\<close>
  | AllocFailed       \<comment> \<open>\<^verbatim>\<open>MXS_MALLOC\<close>/\<^verbatim>\<open>MXS_CALLOC\<close> returned \<^verbatim>\<open>NULL\<close>; the entry point returns \<^verbatim>\<open>NULL\<close>\<close>
  | OpenFailed        \<comment> \<open>\<^verbatim>\<open>fopen\<close> returned \<^verbatim>\<open>NULL\<close>; the entry point returns \<^verbatim>\<open>NULL\<close>\<close>
  | NullPointer       \<comment> \<open>a \<^verbatim>\<open>NULL\<close> pointer handed to \<^verbatim>\<open>strlen\<close> or used as a stream\<close>

datatype hint_type = HINT_ROUTE_TO_MASTER

datatype hint = Hint hint_type "string option"

text \<open>
  A \<^verbatim>\<open>GWBUF\<close> is a chain of buffers (\<^verbatim>\<open>queue\<close>, \<^verbatim>\<open>queue->next\<close>, ...) with a list of
  routing hints hanging off its head.
\<close>

record gwbuf =
  gw_chain :: "string list"
  gw_hint :: "hint list"

definition has_next :: "gwbuf \<Rightarrow> bool" where
  "has_next queue = (1 < length (gw_chain queue))"

text \<open>
  \<^verbatim>\<open>gwbuf_make_contiguous\<close> lives in \<^verbatim>\<open>buffer.c\<close>, which is outside the files modelled here;
  it is modelled by its contract: one buffer holding the bytes of the whole chain.
\<close>

definition gwbuf_make_contiguous :: "gwbuf \<Rightarrow> gwbuf" where
  "gwbuf_make_contiguous queue = queue\<lparr>gw_chain := [concat (gw_chain queue)]\<rparr>"

definition payload :: "gwbuf \<Rightarrow> string" where
  "payload queue = concat (gw_chain queue)"

text \<open>
  Each \<^verbatim>\<open>routeQuery\<close> starts its work on the buffer with
  \<^verbatim>\<open>if (queue->next != NULL) queue = gwbuf_make_contiguous(queue);\<close>
\<close>

definition contiguous :: "gwbuf \<Rightarrow> gwbuf" where
  "contiguous queue = (if has_next queue then gwbuf_make_contiguous queue else queue)"

text \<open>
  \<^verbatim>\<open>hint_create_route(head, type, data)\<close> (\<^verbatim>\<open>hint.c\<close>) links a new hint in front
  of the list.
\<close>

definition hint_create_route :: "hint list \<Rightarrow> hint_type \<Rightarrow> string option \<Rightarrow> hint list" where
  "hint_create_route head ty data = Hint ty data # head"

text \<open>
  The collaborators the filters call but do not define: the SQL extractor
  (\<^verbatim>\<open>modutil_is_SQL\<close>, \<^verbatim>\<open>modutil_get_SQL\<close>), the query classifier (\<^verbatim>\<open>qc_get_operation\<close>),
  the string helpers \<^verbatim>\<open>trim\<close> and \<^verbatim>\<open>squeeze_whitespace\<close> of \<^verbatim>\<open>skygw_utils\<close>, and from the C
  library \<^verbatim>\<open>regexec\<close> (which returns 0 on a match) and the formatting of a clock reading
  (\<^verbatim>\<open>localtime_r\<close> followed by \<^verbatim>\<open>strftime\<close> with \<^verbatim>\<open>"%F %T"\<close>). They are parameters of the
  model. \<open>'r\<close> is the content of a successfully compiled \<^verbatim>\<open>regex_t\<close>.
\<close>

record 'r ext =
  modutil_is_SQL :: "gwbuf \<Rightarrow> bool"
  modutil_get_SQL :: "gwbuf \<Rightarrow> string option"
  qc_get_operation :: "gwbuf \<Rightarrow> 32 word"
  regexec :: "'r \<Rightarrow> string \<Rightarrow> int"
  trim :: "string \<Rightarrow> string"
  squeeze_whitespace :: "string \<Rightarrow> string"
  strftime_FT :: "int \<Rightarrow> string"

text \<open>
  A \<^verbatim>\<open>regex_t\<close> field of an instance is \<open>None\<close> until \<^verbatim>\<open>regcomp\<close> succeeds on it. Running
  \<^verbatim>\<open>regexec\<close> on one that was never compiled is undefined in C and an error value here.
\<close>

definition regexec_t :: "'r ext \<Rightarrow> 'r option \<Rightarrow> string \<Rightarrow> error + int" where
  "regexec_t x re s = (case re of None \<Rightarrow> Inl UncompiledRegex | Some r \<Rightarrow> Inr (regexec x r s))"

text \<open>
  The operation codes of \<^verbatim>\<open>qc_query_op_t\<close>. The enumeration is declared in
  \<^verbatim>\<open>query_classifier.h\<close>, which is outside the files modelled here; the filter uses it as a bit
  mask (\<^verbatim>\<open>qc_get_operation(queue) & ~QUERY_OP_SELECT\<close>), and the header gives the undefined
  operation no bit at all and the select operation the lowest bit.
\<close>

definition QUERY_OP_UNDEFINED :: "32 word" where "QUERY_OP_UNDEFINED = 0"
definition QUERY_OP_SELECT :: "32 word" where "QUERY_OP_SELECT = 1"
definition QUERY_OP_UPDATE :: "32 word" where "QUERY_OP_UPDATE = 2"
definition QUERY_OP_INSERT :: "32 word" where "QUERY_OP_INSERT = 4"
definition QUERY_OP_DELETE :: "32 word" where "QUERY_OP_DELETE = 8"

text \<open>
  The dummy query classifier (the module described as "Dummy Query Classifier"):
  its \<^verbatim>\<open>qc_get_operation\<close> returns \<^verbatim>\<open>QUERY_OP_UNDEFINED\<close> for every buffer.
\<close>

definition dummy_qc_get_operation :: "gwbuf \<Rightarrow> 32 word" where
  "dummy_qc_get_operation querybuf = QUERY_OP_UNDEFINED"


section \<open>The routing hysteresis filter (ccrfilter.c)\<close>

record lagstats =
  n_add_count :: int
  n_add_time :: int
  n_modified :: int

record 'r ccr_instance =
  ccr_match :: "string option"
  ccr_nomatch :: "string option"
  ccr_time :: int
  ccr_count :: int
  ccr_stats :: lagstats
  ccr_re :: "'r option"
  ccr_nore :: "'r option"

record ccr_session =
  hints_left :: int
  last_modification :: int

text \<open>\<^verbatim>\<open>newSession\<close>: \<open>None\<close> is the \<^verbatim>\<open>NULL\<close> returned when \<^verbatim>\<open>MXS_MALLOC\<close> fails.\<close>

definition ccr_newSession :: "bool \<Rightarrow> 'r ccr_instance \<Rightarrow> ccr_session option" where
  "ccr_newSession malloc_ok my_instance =
     (if malloc_ok then Some \<lparr>hints_left = 0, last_modification = 0\<rparr> else None)"

text \<open>
  The two pattern tests of \<^verbatim>\<open>routeQuery\<close>, with C's short-circuit evaluation:
  \<^verbatim>\<open>nomatch == NULL || (nomatch && regexec(&nore, sql, ...) != 0)\<close> and
  \<^verbatim>\<open>match == NULL || (match && regexec(&re, sql, ...) == 0)\<close>.
\<close>

definition ccr_not_ignored :: "'r ext \<Rightarrow> 'r ccr_instance \<Rightarrow> string \<Rightarrow> error + bool" where
  "ccr_not_ignored x my_instance sql =
     (case ccr_nomatch my_instance of
        None \<Rightarrow> Inr True
      | Some p \<Rightarrow>
          (case regexec_t x (ccr_nore my_instance) sql of
             Inl e \<Rightarrow> Inl e
           | Inr rc \<Rightarrow> Inr (rc \<noteq> 0)))"

definition ccr_matched :: "'r ext \<Rightarrow> 'r ccr_instance \<Rightarrow> string \<Rightarrow> error + bool" where
  "ccr_matched x my_instance sql =
     (case ccr_match my_instance of
        None \<Rightarrow> Inr True
      | Some p \<Rightarrow>
          (case regexec_t x (ccr_re my_instance) sql of
             Inl e \<Rightarrow> Inl e
           | Inr rc \<Rightarrow> Inr (rc = 0)))"

text \<open>The body of the innermost \<^verbatim>\<open>if\<close>: the data-modification rule.\<close>

definition ccr_modified :: "'r ccr_instance \<Rightarrow> ccr_session \<Rightarrow> int \<Rightarrow> 'r ccr_instance \<times> ccr_session" where
  "ccr_modified my_instance my_session now =
     (my_instance\<lparr>ccr_stats := (ccr_stats my_instance)
          \<lparr>n_modified := n_modified (ccr_stats my_instance) + 1\<rparr>\<rparr>,
      my_session\<lparr>hints_left := ccr_count my_instance, last_modification := now\<rparr>)"

text \<open>
  \<^verbatim>\<open>routeQuery\<close>. \<open>now\<close> is the value of \<^verbatim>\<open>time(NULL)\<close>. The result holds the instance (its
  statistics change), the session and the buffer handed to
  \<^verbatim>\<open>my_session->down.routeQuery\<close>. \<^verbatim>\<open>difftime(now, last_modification)\<close> is the difference of
  the two \<^verbatim>\<open>time_t\<close> values.
\<close>

definition ccr_routeQuery ::
  "'r ext \<Rightarrow> 'r ccr_instance \<Rightarrow> ccr_session \<Rightarrow> gwbuf \<Rightarrow> int
     \<Rightarrow> error + ('r ccr_instance \<times> ccr_session \<times> gwbuf)" where
  "ccr_routeQuery x my_instance my_session queue0 now =
     (if modutil_is_SQL x queue0 then
        (let queue = contiguous queue0 in
         if (qc_get_operation x queue AND NOT QUERY_OP_SELECT) \<noteq> 0 then
           (case modutil_get_SQL x queue of
              None \<Rightarrow> Inr (my_instance, my_session, queue)
            | Some sql \<Rightarrow>
                (case ccr_not_ignored x my_instance sql of
                   Inl e \<Rightarrow> Inl e
                 | Inr False \<Rightarrow> Inr (my_instance, my_session, queue)
                 | Inr True \<Rightarrow>
                     (case ccr_matched x my_instance sql of
                        Inl e \<Rightarrow> Inl e
                      | Inr False \<Rightarrow> Inr (my_instance, my_session, queue)
                      | Inr True \<Rightarrow>
                          (case ccr_modified my_instance my_session now of
                             (i, s) \<Rightarrow> Inr (i, s, queue)))))
         else if hints_left my_session > 0 then
           Inr (my_instance\<lparr>ccr_stats := (ccr_stats my_instance)
                   \<lparr>n_add_count := n_add_count (ccr_stats my_instance) + 1\<rparr>\<rparr>,
                my_session\<lparr>hints_left := hints_left my_session - 1\<rparr>,
                queue\<lparr>gw_hint := hint_create_route (gw_hint queue) HINT_ROUTE_TO_MASTER None\<rparr>)
         else if now - last_modification my_session < ccr_time my_instance then
           Inr (my_instance\<lparr>ccr_stats := (ccr_stats my_instance)
                   \<lparr>n_add_time := n_add_time (ccr_stats my_instance) + 1\<rparr>\<rparr>,
                my_session,
                queue\<lparr>gw_hint := hint_create_route (gw_hint queue) HINT_ROUTE_TO_MASTER None\<rparr>)
         else Inr (my_instance, my_session, queue))
      else Inr (my_instance, my_session, queue0))"

text \<open>
  A session's life: \<^verbatim>\<open>routeQuery\<close> called on one buffer after the other, each with the
  clock reading of its call. The trace lists, call by call, the instance and the session
  as the call left them and the buffer it passed downstream. It stops at the first error.
\<close>

fun ccr_trace ::
  "'r ext \<Rightarrow> 'r ccr_instance \<Rightarrow> ccr_session \<Rightarrow> (gwbuf \<times> int) list
     \<Rightarrow> error + ('r ccr_instance \<times> ccr_session \<times> gwbuf) list" where
  "ccr_trace x i s [] = Inr []"
| "ccr_trace x i s ((queue, now) # rest) =
     (case ccr_routeQuery x i s queue now of
        Inl e \<Rightarrow> Inl e
      | Inr (i', s', fwd) \<Rightarrow>
          (case ccr_trace x i' s' rest of
             Inl e \<Rightarrow> Inl e
           | Inr tr \<Rightarrow> Inr ((i', s', fwd) # tr)))"

text \<open>
  An instance whose patterns were compiled: each configured pattern has its \<^verbatim>\<open>regex_t\<close>.
\<close>

definition ccr_compiled :: "'r ccr_instance \<Rightarrow> bool" where
  "ccr_compiled i =
     ((ccr_match i = None \<or> ccr_re i \<noteq> None) \<and> (ccr_nomatch i = None \<or> ccr_nore i \<noteq> None))"

text \<open>What the read rule passes downstream: the buffer with a route-to-master hint in front.\<close>

definition with_master_hint :: "gwbuf \<Rightarrow> gwbuf" where
  "with_master_hint queue =
     (contiguous queue)\<lparr>gw_hint := Hint HINT_ROUTE_TO_MASTER None # gw_hint queue\<rparr>"


section \<open>The top-N filter (topfilter.c)\<close>

subsection \<open>Library pieces it uses\<close>

record timeval =
  tv_sec :: int
  tv_usec :: int

text \<open>The macros \<^verbatim>\<open>timersub\<close> and \<^verbatim>\<open>timeradd\<close> of \<^verbatim>\<open>sys/time.h\<close>.\<close>

definition timersub :: "timeval \<Rightarrow> timeval \<Rightarrow> timeval" where
  "timersub a b =
     (if tv_usec a - tv_usec b < 0
      then \<lparr>tv_sec = tv_sec a - tv_sec b - 1, tv_usec = tv_usec a - tv_usec b + 1000000\<rparr>
      else \<lparr>tv_sec = tv_sec a - tv_sec b, tv_usec = tv_usec a - tv_usec b\<rparr>)"

definition timeradd :: "timeval \<Rightarrow> timeval \<Rightarrow> timeval" where
  "timeradd a b =
     (if tv_usec a + tv_usec b \<ge> 1000000
      then \<lparr>tv_sec = tv_sec a + tv_sec b + 1, tv_usec = tv_usec a + tv_usec b - 1000000\<rparr>
      else \<lparr>tv_sec = tv_sec a + tv_sec b, tv_usec = tv_usec a + tv_usec b\<rparr>)"

text \<open>
  \<^verbatim>\<open>sprintf\<close> with \<^verbatim>\<open>"%d"\<close>: the decimal digits of an \<^verbatim>\<open>int\<close>, with a minus sign when it is
  negative.
\<close>

fun digits :: "nat \<Rightarrow> string" where
  "digits n = (if n < 10 then [''0123456789'' ! n]
               else digits (n div 10) @ [''0123456789'' ! (n mod 10)])"

declare digits.simps [simp del]

definition show_int :: "int \<Rightarrow> string" where
  "show_int n = (if n < 0 then CHR ''-'' # digits (nat (- n)) else digits (nat n))"

text \<open>C's integer division truncates towards zero.\<close>

definition c_div :: "int \<Rightarrow> int \<Rightarrow> int" where
  "c_div a b = (if (a < 0) = (b < 0) then \<bar>a\<bar> div \<bar>b\<bar> else - (\<bar>a\<bar> div \<bar>b\<bar>))"

text \<open>
  The value a \<^verbatim>\<open>long\<close> takes when it is returned as an \<^verbatim>\<open>int\<close> (32 bits, two's complement),
  as in the \<^verbatim>\<open>return\<close> statements of \<^verbatim>\<open>cmp_topn\<close>.
\<close>

definition wrap_int :: "int \<Rightarrow> int" where
  "wrap_int v = (v + 2147483648) mod 4294967296 - 2147483648"

text \<open>
  \<^verbatim>\<open>qsort\<close> of the C library, given the comparison function: its contract is a permutation
  in which no element is followed by one that compares smaller. The model sorts by insertion.
\<close>

fun qsort_insert :: "('a \<Rightarrow> 'a \<Rightarrow> int) \<Rightarrow> 'a \<Rightarrow> 'a list \<Rightarrow> 'a list" where
  "qsort_insert cmp x [] = [x]"
| "qsort_insert cmp x (y # ys) =
     (if cmp x y \<le> 0 then x # y # ys else y # qsort_insert cmp x ys)"

definition qsort :: "('a \<Rightarrow> 'a \<Rightarrow> int) \<Rightarrow> 'a list \<Rightarrow> 'a list" where
  "qsort cmp xs = foldr (qsort_insert cmp) xs []"

subsection \<open>Structures\<close>

record 'r top_instance =
  top_sessions :: int
  topN :: int
  top_filebase :: "string option"
  top_source :: "string option"
  top_user :: "string option"
  top_match :: "string option"
  top_re :: "'r option"
  top_exclude :: "string option"
  top_exre :: "'r option"

record topnq =
  duration :: timeval
  sql :: "string option"

text \<open>
  In the session structure the fields \<^verbatim>\<open>active\<close>, \<^verbatim>\<open>filename\<close>, \<^verbatim>\<open>top\<close> and \<^verbatim>\<open>total\<close> are
  \<open>top_active\<close>, \<open>top_filename\<close>, \<open>top_arr\<close> and \<open>total_tv\<close> here.
\<close>

record top_session =
  top_active :: bool
  clientHost :: "string option"
  userName :: "string option"
  top_filename :: string
  start :: timeval
  current :: "string option"
  top_arr :: "topnq list"
  n_statements :: int
  total_tv :: timeval
  connect :: timeval
  disconnect :: timeval

text \<open>
  What a filter reads of the client \<^verbatim>\<open>SESSION\<close>: \<^verbatim>\<open>session_get_remote\<close> and
  \<^verbatim>\<open>session_getUser\<close>, either of which may be \<^verbatim>\<open>NULL\<close>.
\<close>

record client =
  session_get_remote :: "string option"
  session_getUser :: "string option"

text \<open>
  The test \<^verbatim>\<open>wanted && value && strcmp(value, wanted)\<close> that switches a session off, for
  the configured source or user and the client's.
\<close>

definition differs :: "string option \<Rightarrow> string option \<Rightarrow> bool" where
  "differs wanted v =
     (case wanted of None \<Rightarrow> False
      | Some f \<Rightarrow> (case v of None \<Rightarrow> False | Some w \<Rightarrow> w \<noteq> f))"

subsection \<open>newSession\<close>

text \<open>
  \<open>calloc_ok\<close> and \<open>malloc_ok\<close> say whether the session structure and the file name buffer
  could be allocated; \<open>now\<close> is the reading of \<^verbatim>\<open>gettimeofday\<close>. The file name is written
  twice: before \<^verbatim>\<open>atomic_add(&my_instance->sessions, 1)\<close> and once more, from the counter
  as it then stands, at the end of the function. A count of slots below \<open>-1\<close> makes the
  allocation of the slot array fail, and \<^verbatim>\<open>MXS_ABORT_IF_NULL\<close> stops the process.
  The result carries the instance, whose session counter has moved.
\<close>

definition top_newSession ::
  "bool \<Rightarrow> bool \<Rightarrow> 'r top_instance \<Rightarrow> client \<Rightarrow> timeval
     \<Rightarrow> error + ('r top_instance \<times> top_session)" where
  "top_newSession calloc_ok malloc_ok my_instance session now =
     (if calloc_ok then
        (case top_filebase my_instance of
           None \<Rightarrow> Inl NullPointer
         | Some filebase \<Rightarrow>
             if malloc_ok then
               (let filename0 = filebase @ ''.'' @ show_int (top_sessions my_instance);
                    my_instance1 = my_instance\<lparr>top_sessions := top_sessions my_instance + 1\<rparr>
                in if topN my_instance + 1 < 0 then Inl Aborted
                   else
                     Inr (my_instance1,
                          \<lparr>top_active =
                              (if differs (top_source my_instance) (session_get_remote session)
                               then False
                               else if differs (top_user my_instance) (session_getUser session)
                               then False else True),
                           clientHost = session_get_remote session,
                           userName = session_getUser session,
                           top_filename = filebase @ ''.'' @ show_int (top_sessions my_instance1),
                           start = \<lparr>tv_sec = 0, tv_usec = 0\<rparr>,
                           current = None,
                           top_arr = replicate (nat (topN my_instance))
                                   \<lparr>duration = \<lparr>tv_sec = 0, tv_usec = 0\<rparr>, sql = None\<rparr>,
                           n_statements = 0,
                           total_tv = \<lparr>tv_sec = 0, tv_usec = 0\<rparr>,
                           connect = now,
                           disconnect = \<lparr>tv_sec = 0, tv_usec = 0\<rparr>\<rparr>))
             else Inl AllocFailed)
      else Inl AllocFailed)"

subsection \<open>routeQuery\<close>

text \<open>
  \<^verbatim>\<open>(match == NULL || regexec(&re, ptr, ...) == 0) && (exclude == NULL || regexec(&exre, ptr, ...) != 0)\<close>,
  evaluated left to right.
\<close>

definition top_wanted :: "'r ext \<Rightarrow> 'r top_instance \<Rightarrow> string \<Rightarrow> error + bool" where
  "top_wanted x my_instance ptr =
     (case (case top_match my_instance of
              None \<Rightarrow> Inr True
            | Some p \<Rightarrow> (case regexec_t x (top_re my_instance) ptr of
                          Inl e \<Rightarrow> Inl e | Inr rc \<Rightarrow> Inr (rc = 0))) of
        Inl e \<Rightarrow> Inl e
      | Inr False \<Rightarrow> Inr False
      | Inr True \<Rightarrow>
          (case top_exclude my_instance of
             None \<Rightarrow> Inr True
           | Some p \<Rightarrow> (case regexec_t x (top_exre my_instance) ptr of
                         Inl e \<Rightarrow> Inl e | Inr rc \<Rightarrow> Inr (rc \<noteq> 0))))"

text \<open>
  The result is the session and the buffer handed to \<^verbatim>\<open>my_session->down.routeQuery\<close>;
  \<open>now\<close> is what \<^verbatim>\<open>gettimeofday\<close> gives if it is called.
\<close>

definition top_routeQuery ::
  "'r ext \<Rightarrow> 'r top_instance \<Rightarrow> top_session \<Rightarrow> gwbuf \<Rightarrow> timeval
     \<Rightarrow> error + (top_session \<times> gwbuf)" where
  "top_routeQuery x my_instance my_session queue0 now =
     (if top_active my_session then
        (let queue = contiguous queue0 in
         case modutil_get_SQL x queue of
           None \<Rightarrow> Inr (my_session, queue)
         | Some ptr \<Rightarrow>
             (case top_wanted x my_instance ptr of
                Inl e \<Rightarrow> Inl e
              | Inr False \<Rightarrow> Inr (my_session, queue)
              | Inr True \<Rightarrow>
                  Inr (my_session\<lparr>n_statements := n_statements my_session + 1,
                                  start := now, current := Some ptr\<rparr>, queue)))
      else Inr (my_session, queue0))"

subsection \<open>clientReply\<close>

definition cmp_topn :: "topnq \<Rightarrow> topnq \<Rightarrow> int" where
  "cmp_topn a b =
     (if tv_sec (duration b) = tv_sec (duration a)
      then wrap_int (tv_usec (duration b) - tv_usec (duration a))
      else wrap_int (tv_sec (duration b) - tv_sec (duration a)))"

text \<open>The \<^verbatim>\<open>for\<close> loop: the index of the first slot whose \<^verbatim>\<open>sql\<close> is \<^verbatim>\<open>NULL\<close>.\<close>

fun first_free :: "topnq list \<Rightarrow> nat option" where
  "first_free [] = None"
| "first_free (e # es) =
     (if sql e = None then Some 0 else map_option Suc (first_free es))"

text \<open>\<^verbatim>\<open>qsort(my_session->top, my_instance->topN, sizeof(TOPNQ *), cmp_topn)\<close>.\<close>

definition top_qsort :: "int \<Rightarrow> topnq list \<Rightarrow> topnq list" where
  "top_qsort n tops = qsort cmp_topn (take (nat n) tops) @ drop (nat n) tops"

text \<open>
  The slot array has \<open>topN\<close> slots. The loop and the comparison with the last slot read
  \<^verbatim>\<open>top[0]\<close> ... \<^verbatim>\<open>top[topN - 1]\<close>; a read outside the array (a session whose array is
  shorter than \<open>topN\<close>, or \<^verbatim>\<open>top[topN - 1]\<close> when \<open>topN\<close> is not positive) is the error
  \<open>OutOfBounds\<close>. \<open>tv\<close> is the reading of \<^verbatim>\<open>gettimeofday\<close>. The result is the session and the
  buffer handed to \<^verbatim>\<open>my_session->up.clientReply\<close>.
\<close>

definition top_clientReply ::
  "'r top_instance \<Rightarrow> top_session \<Rightarrow> gwbuf \<Rightarrow> timeval \<Rightarrow> error + (top_session \<times> gwbuf)" where
  "top_clientReply my_instance my_session reply tv =
     (case current my_session of
        None \<Rightarrow> Inr (my_session, reply)
      | Some cur \<Rightarrow>
          (let diff = timersub tv (start my_session);
               s1 = my_session\<lparr>total_tv := timeradd (total_tv my_session) diff\<rparr>;
               n = topN my_instance
           in if length (top_arr s1) < nat n then Inl OutOfBounds
              else
                (case first_free (take (nat n) (top_arr s1)) of
                   Some i \<Rightarrow>
                     Inr (s1\<lparr>top_arr := top_qsort n ((top_arr s1)[i := \<lparr>duration = diff, sql = Some cur\<rparr>]),
                             current := None\<rparr>, reply)
                 | None \<Rightarrow>
                     if n - 1 < 0 then Inl OutOfBounds
                     else if tv_sec diff > tv_sec (duration (top_arr s1 ! nat (n - 1)))
                           \<or> (tv_sec diff = tv_sec (duration (top_arr s1 ! nat (n - 1)))
                              \<and> tv_usec diff > tv_usec (duration (top_arr s1 ! nat (n - 1))))
                     then Inr (s1\<lparr>top_arr := top_qsort n
                                     ((top_arr s1)[nat (n - 1) := \<lparr>duration = diff, sql = Some cur\<rparr>]),
                                  current := None\<rparr>, reply)
                     else Inr (s1\<lparr>current := None\<rparr>, reply))))"

subsection \<open>closeSession\<close>

text \<open>
  The report, field by field as the \<^verbatim>\<open>fprintf\<close> calls print it. A row of the table holds
  the milliseconds \<^verbatim>\<open>tv_sec * 1000 + tv_usec / 1000\<close> of a kept statement (printed divided by
  1000, with three decimals) and its text. The average is printed as the quotient, in
  \<^verbatim>\<open>double\<close>, of the dividend \<^verbatim>\<open>total.tv_sec * 1000 + total.tv_usec / 1000\<close> and the divisor
  \<^verbatim>\<open>1000 * statements\<close>; the report keeps both. The seconds and microseconds of the total and
  of the connection time are cast to \<^verbatim>\<open>int\<close> before they are printed.
\<close>

record top_report =
  rep_topN :: int
  rep_rows :: "(int \<times> string) list"
  rep_started :: int
  rep_clientHost :: "string option"
  rep_userName :: "string option"
  rep_statements :: int
  rep_total :: "int \<times> int"
  rep_average_dividend :: int
  rep_average_divisor :: int
  rep_connection_time :: "int \<times> int"

definition millis :: "timeval \<Rightarrow> int" where
  "millis t = tv_sec t * 1000 + c_div (tv_usec t) 1000"

text \<open>The loop over the slots: one row for each slot that holds a statement.\<close>

fun top_rows :: "topnq list \<Rightarrow> (int \<times> string) list" where
  "top_rows [] = []"
| "top_rows (e # es) =
     (case sql e of None \<Rightarrow> top_rows es | Some q \<Rightarrow> (millis (duration e), q) # top_rows es)"

text \<open>
  \<open>fs\<close> maps the name of a file to the report written to it; \<open>fopen_ok\<close> says whether
  \<^verbatim>\<open>fopen(my_session->filename, "w")\<close> succeeds; \<open>now\<close> is the reading of \<^verbatim>\<open>gettimeofday\<close>.
\<close>

definition top_closeSession ::
  "bool \<Rightarrow> 'r top_instance \<Rightarrow> top_session \<Rightarrow> timeval \<Rightarrow> (string \<rightharpoonup> top_report)
     \<Rightarrow> top_session \<times> (string \<rightharpoonup> top_report)" where
  "top_closeSession fopen_ok my_instance my_session0 now fs =
     (let my_session = my_session0\<lparr>disconnect := now\<rparr>;
          diff = timersub (disconnect my_session) (connect my_session)
      in if fopen_ok then
           (let statements = (if n_statements my_session \<noteq> 0 then n_statements my_session else 1)
            in (my_session,
                fs(top_filename my_session \<mapsto>
                   \<lparr>rep_topN = topN my_instance,
                    rep_rows = top_rows (take (nat (topN my_instance)) (top_arr my_session)),
                    rep_started = tv_sec (connect my_session),
                    rep_clientHost = clientHost my_session,
                    rep_userName = userName my_session,
                    rep_statements = statements,
                    rep_total = (wrap_int (tv_sec (total_tv my_session)),
                                 c_div (wrap_int (tv_usec (total_tv my_session))) 1000),
                    rep_average_dividend = millis (total_tv my_session),
                    rep_average_divisor = 1000 * statements,
                    rep_connection_time = (wrap_int (tv_sec diff), c_div (wrap_int (tv_usec diff)) 1000)\<rparr>)))
         else (my_session, fs))"

subsection \<open>A session's life\<close>

datatype top_event = RouteQuery gwbuf timeval | ClientReply gwbuf timeval

fun event_time :: "top_event \<Rightarrow> timeval" where
  "event_time (RouteQuery queue now) = now"
| "event_time (ClientReply reply now) = now"

fun event_buffer :: "top_event \<Rightarrow> gwbuf" where
  "event_buffer (RouteQuery queue now) = queue"
| "event_buffer (ClientReply reply now) = reply"

definition top_step ::
  "'r ext \<Rightarrow> 'r top_instance \<Rightarrow> top_session \<Rightarrow> top_event \<Rightarrow> error + (top_session \<times> gwbuf)" where
  "top_step x i s ev =
     (case ev of
        RouteQuery queue now \<Rightarrow> top_routeQuery x i s queue now
      | ClientReply reply now \<Rightarrow> top_clientReply i s reply now)"

text \<open>
  The trace lists, event by event, the session as the call left it and the buffer the call
  passed on. It stops at the first error.
\<close>

fun top_trace ::
  "'r ext \<Rightarrow> 'r top_instance \<Rightarrow> top_session \<Rightarrow> top_event list
     \<Rightarrow> error + (top_session \<times> gwbuf) list" where
  "top_trace x i s [] = Inr []"
| "top_trace x i s (ev # rest) =
     (case top_step x i s ev of
        Inl e \<Rightarrow> Inl e
      | Inr (s', fwd) \<Rightarrow>
          (case top_trace x i s' rest of
             Inl e \<Rightarrow> Inl e
           | Inr tr \<Rightarrow> Inr ((s', fwd) # tr)))"



definition top_compiled :: "'r top_instance \<Rightarrow> bool" where
  "top_compiled i =
     ((top_match i = None \<or> top_re i \<noteq> None) \<and> (top_exclude i = None \<or> top_exre i \<noteq> None))"

text \<open>
  The ranking: the slots that hold a statement, in array order; a duration is at least
  another when it is greater in seconds, or equal in seconds and not smaller in microseconds.
\<close>

definition occupied :: "top_session \<Rightarrow> topnq list" where
  "occupied s = filter (\<lambda>e. sql e \<noteq> None) (top_arr s)"

definition dur_ge :: "timeval \<Rightarrow> timeval \<Rightarrow> bool" where
  "dur_ge a b = (tv_sec a > tv_sec b \<or> (tv_sec a = tv_sec b \<and> tv_usec a \<ge> tv_usec b))"

definition descending :: "topnq list \<Rightarrow> bool" where
  "descending es = sorted_wrt (\<lambda>a b. dur_ge (duration a) (duration b)) es"

text \<open>
  Clock readings that lie in one window of \<open>2^30\<close> seconds (34 years) starting at \<open>T\<close>, with
  microseconds in range: then the difference of two measured durations fits the \<^verbatim>\<open>int\<close> that
  \<^verbatim>\<open>cmp_topn\<close> returns.
\<close>

definition in_window :: "int \<Rightarrow> timeval \<Rightarrow> bool" where
  "in_window T t = (T \<le> tv_sec t \<and> tv_sec t < T + 1073741824 \<and> 0 \<le> tv_usec t \<and> tv_usec t < 1000000)"


subsection \<open>Invariants of a session\<close>

text \<open>
  \<open>bounded\<close>: a duration measured between two clock readings of one window.
  \<open>ranking_ok\<close>: the ranking holds at most \<open>topN\<close> statements, in descending order.
  \<open>top_inv\<close>: what every call keeps: the array has \<open>topN\<close> slots, their durations are
  bounded and descending, and the start of a pending statement lies in the window.
  \<open>top_quiet\<close>: the statement counter is not negative, and while it is 0 nothing is pending
  and the total is 0.
\<close>

definition bounded :: "timeval \<Rightarrow> bool" where
  "bounded d = (- 1073741824 \<le> tv_sec d \<and> tv_sec d < 1073741824 \<and> 0 \<le> tv_usec d \<and> tv_usec d < 1000000)"

definition ranking_ok :: "'r top_instance \<Rightarrow> top_session \<Rightarrow> bool" where
  "ranking_ok i s = (length (occupied s) \<le> nat (topN i) \<and> descending (occupied s))"

definition top_inv :: "int \<Rightarrow> 'r top_instance \<Rightarrow> top_session \<Rightarrow> bool" where
  "top_inv T i s =
     (length (top_arr s) = nat (topN i) \<and> list_all (\<lambda>e. bounded (duration e)) (top_arr s)
      \<and> descending (top_arr s) \<and> (current s = None \<or> in_window T (start s)))"

definition top_quiet :: "top_session \<Rightarrow> bool" where
  "top_quiet s = (0 \<le> n_statements s \<and>
      (n_statements s \<noteq> 0 \<or> (current s = None \<and> total_tv s = \<lparr>tv_sec = 0, tv_usec = 0\<rparr>)))"


section \<open>The query logger (qlafilter.c)\<close>

record 'r qla_instance =
  qla_sessions :: int
  qla_filebase :: "string option"
  qla_source :: "string option"
  qla_userName :: "string option"
  qla_match :: "string option"
  qla_re :: "'r option"
  qla_nomatch :: "string option"
  qla_nore :: "'r option"

text \<open>
  The stream \<^verbatim>\<open>fp\<close> of a session is the name of the file it was opened on, or \<open>None\<close> for
  \<^verbatim>\<open>NULL\<close>. The files are a map from names to what has been written to them.
\<close>

record qla_session =
  qla_filename :: string
  qla_fp :: "string option"
  qla_active :: bool
  qla_user :: "string option"
  qla_remote :: "string option"

type_synonym files = "string \<rightharpoonup> string"

subsection \<open>newSession\<close>

text \<open>
  \<open>calloc_ok\<close>, \<open>malloc_ok\<close> and \<open>fopen_ok\<close> say whether the session structure and the file
  name buffer can be allocated and whether \<^verbatim>\<open>fopen(filename, "w")\<close> succeeds. The function
  returns the instance (whose counter moves before the file is opened), the files, and the
  session or the reason why there is none. Opening for writing leaves the file empty.
\<close>

definition qla_newSession ::
  "bool \<Rightarrow> bool \<Rightarrow> bool \<Rightarrow> 'r qla_instance \<Rightarrow> client \<Rightarrow> files
     \<Rightarrow> 'r qla_instance \<times> files \<times> (error + qla_session)" where
  "qla_newSession calloc_ok malloc_ok fopen_ok my_instance session fs =
     (if calloc_ok then
        (case qla_filebase my_instance of
           None \<Rightarrow> (my_instance, fs, Inl NullPointer)
         | Some filebase \<Rightarrow>
             if malloc_ok then
               (let remote = session_get_remote session;
                    userName = session_getUser session;
                    active = (if differs (qla_source my_instance) remote
                                 \<or> differs (qla_userName my_instance) userName
                              then False else True);
                    filename = filebase @ ''.'' @ show_int (qla_sessions my_instance);
                    my_instance1 = my_instance\<lparr>qla_sessions := qla_sessions my_instance + 1\<rparr>
                in if active then
                     (if fopen_ok then
                        (my_instance1, fs(filename \<mapsto> []),
                         Inr \<lparr>qla_filename = filename, qla_fp = Some filename, qla_active = True,
                              qla_user = userName, qla_remote = remote\<rparr>)
                      else (my_instance1, fs, Inl OpenFailed))
                   else
                     (my_instance1, fs,
                      Inr \<lparr>qla_filename = filename, qla_fp = None, qla_active = False,
                           qla_user = userName, qla_remote = remote\<rparr>))
             else (my_instance, fs, Inl AllocFailed))
      else (my_instance, fs, Inl AllocFailed))"

subsection \<open>routeQuery\<close>

text \<open>
  \<^verbatim>\<open>(match == NULL || regexec(&re, ptr, ...) == 0) && (nomatch == NULL || regexec(&nore, ptr, ...) != 0)\<close>,
  evaluated left to right.
\<close>

definition qla_wanted :: "'r ext \<Rightarrow> 'r qla_instance \<Rightarrow> string \<Rightarrow> error + bool" where
  "qla_wanted x my_instance ptr =
     (case (case qla_match my_instance of
              None \<Rightarrow> Inr True
            | Some p \<Rightarrow> (case regexec_t x (qla_re my_instance) ptr of
                          Inl e \<Rightarrow> Inl e | Inr rc \<Rightarrow> Inr (rc = 0))) of
        Inl e \<Rightarrow> Inl e
      | Inr False \<Rightarrow> Inr False
      | Inr True \<Rightarrow>
          (case qla_nomatch my_instance of
             None \<Rightarrow> Inr True
           | Some p \<Rightarrow> (case regexec_t x (qla_nore my_instance) ptr of
                         Inl e \<Rightarrow> Inl e | Inr rc \<Rightarrow> Inr (rc \<noteq> 0))))"

text \<open>What \<^verbatim>\<open>fprintf\<close> of the C library prints for a \<^verbatim>\<open>%s\<close> whose argument is \<^verbatim>\<open>NULL\<close>.\<close>

definition percent_s :: "string option \<Rightarrow> string" where
  "percent_s p = (case p of None \<Rightarrow> ''(null)'' | Some t \<Rightarrow> t)"

text \<open>
  The line of \<^verbatim>\<open>fprintf(my_session->fp, "%s,%s@%s,%s\n", buffer, user, remote, trim(squeeze_whitespace(ptr)))\<close>.
\<close>

definition qla_line :: "'r ext \<Rightarrow> qla_session \<Rightarrow> timeval \<Rightarrow> string \<Rightarrow> string" where
  "qla_line x my_session tv ptr =
     strftime_FT x (tv_sec tv) @ '','' @ percent_s (qla_user my_session) @ ''@''
       @ percent_s (qla_remote my_session) @ '','' @ trim x (squeeze_whitespace x ptr)
       @ [CHR 0x0A]"

text \<open>Writing to a stream appends to what its file holds.\<close>

definition file_text :: "files \<Rightarrow> string \<Rightarrow> string" where
  "file_text fs name = (case fs name of None \<Rightarrow> [] | Some old \<Rightarrow> old)"

definition fprintf :: "string \<Rightarrow> string \<Rightarrow> files \<Rightarrow> files" where
  "fprintf fp text fs = fs(fp \<mapsto> file_text fs fp @ text)"

text \<open>
  The result is the files and the buffer handed to \<^verbatim>\<open>my_session->down.routeQuery\<close>; \<open>tv\<close> is
  what \<^verbatim>\<open>gettimeofday\<close> gives if it is called.
\<close>

definition qla_routeQuery ::
  "'r ext \<Rightarrow> 'r qla_instance \<Rightarrow> qla_session \<Rightarrow> gwbuf \<Rightarrow> timeval \<Rightarrow> files
     \<Rightarrow> error + (files \<times> gwbuf)" where
  "qla_routeQuery x my_instance my_session queue0 tv fs =
     (if qla_active my_session then
        (let queue = contiguous queue0 in
         case modutil_get_SQL x queue of
           None \<Rightarrow> Inr (fs, queue)
         | Some ptr \<Rightarrow>
             (case qla_wanted x my_instance ptr of
                Inl e \<Rightarrow> Inl e
              | Inr False \<Rightarrow> Inr (fs, queue)
              | Inr True \<Rightarrow>
                  (case qla_fp my_session of
                     None \<Rightarrow> Inl NullPointer
                   | Some fp \<Rightarrow> Inr (fprintf fp (qla_line x my_session tv ptr) fs, queue))))
      else Inr (fs, queue0))"

subsection \<open>closeSession\<close>

text \<open>
  \<^verbatim>\<open>fclose\<close> is called when the session is active and has a stream; what was written stays in
  the file. The result says whether the stream was closed.
\<close>

definition qla_closeSession :: "qla_session \<Rightarrow> files \<Rightarrow> bool \<times> files" where
  "qla_closeSession my_session fs =
     (if qla_active my_session \<and> qla_fp my_session \<noteq> None then (True, fs) else (False, fs))"


section \<open>Building the instances (createInstance)\<close>

subsection \<open>Memory, options and the C library\<close>

text \<open>
  What is allocated and not yet released: the instance structure, the copies made by
  \<^verbatim>\<open>MXS_STRDUP_A\<close> (which aborts rather than return \<^verbatim>\<open>NULL\<close>), and what a successful
  \<^verbatim>\<open>regcomp\<close> allocated for a \<^verbatim>\<open>regex_t\<close> field of the instance, named by the field. The heap
  is the list of these; releasing takes one occurrence out.
\<close>

datatype alloc = MInstance | MString string | MRegex string

type_synonym heap = "alloc list"

definition mxs_strdup :: "string \<Rightarrow> heap \<Rightarrow> heap" where
  "mxs_strdup v h = MString v # h"

text \<open>\<^verbatim>\<open>MXS_FREE(p)\<close> for a string pointer; \<^verbatim>\<open>MXS_FREE(NULL)\<close> does nothing.\<close>

definition mxs_free :: "string option \<Rightarrow> heap \<Rightarrow> heap" where
  "mxs_free p h = (case p of None \<Rightarrow> h | Some v \<Rightarrow> remove1 (MString v) h)"

definition regfree :: "string \<Rightarrow> heap \<Rightarrow> heap" where
  "regfree field h = remove1 (MRegex field) h"

text \<open>The flags of \<^verbatim>\<open>regex.h\<close> (the values of the GNU C library).\<close>

definition REG_EXTENDED :: "32 word" where "REG_EXTENDED = 1"
definition REG_ICASE :: "32 word" where "REG_ICASE = 2"

definition tolower :: "char \<Rightarrow> char" where
  "tolower c = (if of_char c \<ge> (65 :: nat) \<and> of_char c \<le> (90 :: nat)
                then char_of (of_char c + (32 :: nat)) else c)"

text \<open>\<^verbatim>\<open>strcasecmp\<close>: 0 when the strings are equal up to the case of letters.\<close>

definition strcasecmp :: "string \<Rightarrow> string \<Rightarrow> int" where
  "strcasecmp a b = (if map tolower a = map tolower b then 0 else 1)"

text \<open>
  The loop over the options, the same in the three files: it yields the flags for \<^verbatim>\<open>regcomp\<close>
  and tells whether an option was not supported (which the logger and the top-N filter take
  as an error, and the hysteresis filter only reports).
\<close>

definition regex_option :: "string \<Rightarrow> 32 word \<times> bool \<Rightarrow> 32 word \<times> bool" where
  "regex_option opt st =
     (case st of (cflags, unsupported) \<Rightarrow>
        if strcasecmp opt ''ignorecase'' = 0 then (cflags OR REG_ICASE, unsupported)
        else if strcasecmp opt ''case'' = 0 then (cflags AND NOT REG_ICASE, unsupported)
        else if strcasecmp opt ''extended'' = 0 then (cflags OR REG_EXTENDED, unsupported)
        else (cflags, True))"

primrec regex_options :: "string list \<Rightarrow> 32 word \<times> bool \<Rightarrow> 32 word \<times> bool" where
  "regex_options [] st = st"
| "regex_options (opt # rest) st = regex_options rest (regex_option opt st)"

text \<open>
  \<^verbatim>\<open>atoi(s)\<close> is \<^verbatim>\<open>(int) strtol(s, NULL, 10)\<close>: optional white space, an optional sign,
  then digits; the value saturates at the bounds of \<^verbatim>\<open>long\<close> (64 bits) and is then cut to
  the 32 bits of an \<^verbatim>\<open>int\<close>.
\<close>

definition isspace :: "char \<Rightarrow> bool" where
  "isspace c = (c \<in> set [CHR '' '', CHR 0x09, CHR 0x0A, CHR 0x0B, CHR 0x0C, CHR 0x0D])"

definition isdigit :: "char \<Rightarrow> bool" where
  "isdigit c = (of_char c \<ge> (48 :: nat) \<and> of_char c \<le> (57 :: nat))"

fun atoi_digits :: "string \<Rightarrow> int \<Rightarrow> int" where
  "atoi_digits [] acc = acc"
| "atoi_digits (c # cs) acc =
     (if isdigit c then atoi_digits cs (acc * 10 + (int (of_char c) - 48)) else acc)"

definition strtol :: "string \<Rightarrow> int" where
  "strtol s =
     max (- 9223372036854775808) (min 9223372036854775807
       (case dropWhile isspace s of
          [] \<Rightarrow> 0
        | c # cs \<Rightarrow>
            if c = CHR ''-'' then - atoi_digits cs 0
            else if c = CHR ''+'' then atoi_digits cs 0
            else atoi_digits (c # cs) 0))"

definition atoi :: "string \<Rightarrow> int" where
  "atoi s = wrap_int (strtol s)"

text \<open>
  Two collaborators are parameters of every \<^verbatim>\<open>createInstance\<close>:
  \<open>std\<close>, the test \<^verbatim>\<open>filter_standard_parameter\<close> of \<^verbatim>\<open>filter.c\<close>, and \<open>regcomp\<close>,
  which gives the compiled expression or \<open>None\<close> when the C function returns non-zero.
  \<open>malloc_ok\<close> says whether the instance structure can be allocated. A parameter array is a
  list of name and value pairs (empty for \<^verbatim>\<open>NULL\<close>), and so is the option array. The result
  is the instance, or \<open>None\<close> for \<^verbatim>\<open>NULL\<close>, and the heap.
\<close>

subsection \<open>The query logger\<close>

text \<open>One round of the loop over the parameters, and the loop.\<close>

definition qla_param ::
  "(string \<Rightarrow> bool) \<Rightarrow> string \<times> string \<Rightarrow> 'r qla_instance \<times> bool \<times> heap
     \<Rightarrow> 'r qla_instance \<times> bool \<times> heap" where
  "qla_param std param st =
     (case (param, st) of ((name, v), (my_instance, error, h)) \<Rightarrow>
        if name = ''match'' then (my_instance\<lparr>qla_match := Some v\<rparr>, error, mxs_strdup v h)
        else if name = ''exclude'' then (my_instance\<lparr>qla_nomatch := Some v\<rparr>, error, mxs_strdup v h)
        else if name = ''source'' then (my_instance\<lparr>qla_source := Some v\<rparr>, error, mxs_strdup v h)
        else if name = ''user'' then (my_instance\<lparr>qla_userName := Some v\<rparr>, error, mxs_strdup v h)
        else if name = ''filebase'' then (my_instance\<lparr>qla_filebase := Some v\<rparr>, error, mxs_strdup v h)
        else if std name then (my_instance, error, h)
        else (my_instance, True, h))"

primrec qla_params ::
  "(string \<Rightarrow> bool) \<Rightarrow> (string \<times> string) list \<Rightarrow> 'r qla_instance \<times> bool \<times> heap
     \<Rightarrow> 'r qla_instance \<times> bool \<times> heap" where
  "qla_params std [] st = st"
| "qla_params std (param # rest) st = qla_params std rest (qla_param std param st)"

text \<open>The two \<^verbatim>\<open>regcomp\<close> steps.\<close>

definition qla_compile_match ::
  "(string \<Rightarrow> 32 word \<Rightarrow> 'r option) \<Rightarrow> 32 word \<Rightarrow> 'r qla_instance \<times> bool \<times> heap
     \<Rightarrow> 'r qla_instance \<times> bool \<times> heap" where
  "qla_compile_match regcomp cflags st =
     (case st of (my_instance, error, h) \<Rightarrow>
        (case qla_match my_instance of
           None \<Rightarrow> (my_instance, error, h)
         | Some p \<Rightarrow>
             (case regcomp p cflags of
                Some r \<Rightarrow> (my_instance\<lparr>qla_re := Some r\<rparr>, error, MRegex ''re'' # h)
              | None \<Rightarrow> (my_instance\<lparr>qla_match := None\<rparr>, True, mxs_free (Some p) h))))"

definition qla_compile_nomatch ::
  "(string \<Rightarrow> 32 word \<Rightarrow> 'r option) \<Rightarrow> 32 word \<Rightarrow> 'r qla_instance \<times> bool \<times> heap
     \<Rightarrow> 'r qla_instance \<times> bool \<times> heap" where
  "qla_compile_nomatch regcomp cflags st =
     (case st of (my_instance, error, h) \<Rightarrow>
        (case qla_nomatch my_instance of
           None \<Rightarrow> (my_instance, error, h)
         | Some p \<Rightarrow>
             (case regcomp p cflags of
                Some r \<Rightarrow> (my_instance\<lparr>qla_nore := Some r\<rparr>, error, MRegex ''nore'' # h)
              | None \<Rightarrow> (my_instance\<lparr>qla_nomatch := None\<rparr>, True, mxs_free (Some p) h))))"

text \<open>The block under \<^verbatim>\<open>if (error)\<close>.\<close>

definition qla_release :: "'r qla_instance \<Rightarrow> heap \<Rightarrow> heap" where
  "qla_release my_instance h0 =
     (let h1 = (case qla_match my_instance of
                  None \<Rightarrow> h0 | Some p \<Rightarrow> regfree ''re'' (mxs_free (Some p) h0));
          h2 = (case qla_nomatch my_instance of
                  None \<Rightarrow> h1 | Some p \<Rightarrow> regfree ''nore'' (mxs_free (Some p) h1));
          h3 = mxs_free (qla_filebase my_instance) h2;
          h4 = mxs_free (qla_source my_instance) h3;
          h5 = mxs_free (qla_userName my_instance) h4
      in remove1 MInstance h5)"

definition qla_createInstance ::
  "(string \<Rightarrow> bool) \<Rightarrow> (string \<Rightarrow> 32 word \<Rightarrow> 'r option) \<Rightarrow> bool \<Rightarrow> string list
     \<Rightarrow> (string \<times> string) list \<Rightarrow> 'r qla_instance option \<times> heap" where
  "qla_createInstance std regcomp malloc_ok options params =
     (if malloc_ok then
        (case qla_params std params
                (\<lparr>qla_sessions = 0, qla_filebase = None, qla_source = None, qla_userName = None,
                  qla_match = None, qla_re = None, qla_nomatch = None, qla_nore = None\<rparr>,
                 False, [MInstance]) of
           (i1, error1, h1) \<Rightarrow>
             (case regex_options options (REG_ICASE, error1) of
                (cflags, error2) \<Rightarrow>
                  (case qla_compile_nomatch regcomp cflags
                          (qla_compile_match regcomp cflags
                             (i1\<lparr>qla_sessions := 0\<rparr>,
                              (if qla_filebase i1 = None then True else error2), h1)) of
                     (i2, error, h2) \<Rightarrow>
                       if error then (None, qla_release i2 h2) else (Some i2, h2))))
      else (None, []))"

subsection \<open>The top-N filter\<close>

definition top_param ::
  "(string \<Rightarrow> bool) \<Rightarrow> string \<times> string \<Rightarrow> 'r top_instance \<times> bool \<times> heap
     \<Rightarrow> 'r top_instance \<times> bool \<times> heap" where
  "top_param std param st =
     (case (param, st) of ((name, v), (my_instance, error, h)) \<Rightarrow>
        if name = ''count'' then (my_instance\<lparr>topN := atoi v\<rparr>, error, h)
        else if name = ''filebase'' then (my_instance\<lparr>top_filebase := Some v\<rparr>, error, mxs_strdup v h)
        else if name = ''match'' then (my_instance\<lparr>top_match := Some v\<rparr>, error, mxs_strdup v h)
        else if name = ''exclude'' then (my_instance\<lparr>top_exclude := Some v\<rparr>, error, mxs_strdup v h)
        else if name = ''source'' then (my_instance\<lparr>top_source := Some v\<rparr>, error, mxs_strdup v h)
        else if name = ''user'' then (my_instance\<lparr>top_user := Some v\<rparr>, error, mxs_strdup v h)
        else if std name then (my_instance, error, h)
        else (my_instance, True, h))"

primrec top_params ::
  "(string \<Rightarrow> bool) \<Rightarrow> (string \<times> string) list \<Rightarrow> 'r top_instance \<times> bool \<times> heap
     \<Rightarrow> 'r top_instance \<times> bool \<times> heap" where
  "top_params std [] st = st"
| "top_params std (param # rest) st = top_params std rest (top_param std param st)"

text \<open>
  The two \<^verbatim>\<open>regcomp\<close> steps; on failure this file calls \<^verbatim>\<open>regfree\<close> as well before it
  releases the pattern text.
\<close>

definition top_compile_match ::
  "(string \<Rightarrow> 32 word \<Rightarrow> 'r option) \<Rightarrow> 32 word \<Rightarrow> 'r top_instance \<times> bool \<times> heap
     \<Rightarrow> 'r top_instance \<times> bool \<times> heap" where
  "top_compile_match regcomp cflags st =
     (case st of (my_instance, error, h) \<Rightarrow>
        (case top_match my_instance of
           None \<Rightarrow> (my_instance, error, h)
         | Some p \<Rightarrow>
             (case regcomp p cflags of
                Some r \<Rightarrow> (my_instance\<lparr>top_re := Some r\<rparr>, error, MRegex ''re'' # h)
              | None \<Rightarrow>
                  (my_instance\<lparr>top_match := None\<rparr>, True, mxs_free (Some p) (regfree ''re'' h)))))"

definition top_compile_exclude ::
  "(string \<Rightarrow> 32 word \<Rightarrow> 'r option) \<Rightarrow> 32 word \<Rightarrow> 'r top_instance \<times> bool \<times> heap
     \<Rightarrow> 'r top_instance \<times> bool \<times> heap" where
  "top_compile_exclude regcomp cflags st =
     (case st of (my_instance, error, h) \<Rightarrow>
        (case top_exclude my_instance of
           None \<Rightarrow> (my_instance, error, h)
         | Some p \<Rightarrow>
             (case regcomp p cflags of
                Some r \<Rightarrow> (my_instance\<lparr>top_exre := Some r\<rparr>, error, MRegex ''exre'' # h)
              | None \<Rightarrow>
                  (my_instance\<lparr>top_exclude := None\<rparr>, True, mxs_free (Some p) (regfree ''exre'' h)))))"

definition top_release :: "'r top_instance \<Rightarrow> heap \<Rightarrow> heap" where
  "top_release my_instance h0 =
     (let h1 = (case top_exclude my_instance of
                  None \<Rightarrow> h0 | Some p \<Rightarrow> mxs_free (Some p) (regfree ''exre'' h0));
          h2 = (case top_match my_instance of
                  None \<Rightarrow> h1 | Some p \<Rightarrow> mxs_free (Some p) (regfree ''re'' h1));
          h3 = mxs_free (top_filebase my_instance) h2;
          h4 = mxs_free (top_source my_instance) h3;
          h5 = mxs_free (top_user my_instance) h4
      in remove1 MInstance h5)"

definition top_createInstance ::
  "(string \<Rightarrow> bool) \<Rightarrow> (string \<Rightarrow> 32 word \<Rightarrow> 'r option) \<Rightarrow> bool \<Rightarrow> string list
     \<Rightarrow> (string \<times> string) list \<Rightarrow> 'r top_instance option \<times> heap" where
  "top_createInstance std regcomp malloc_ok options params =
     (if malloc_ok then
        (case top_params std params
                (\<lparr>top_sessions = 0, topN = 10, top_filebase = None, top_source = None,
                  top_user = None, top_match = None, top_re = None, top_exclude = None,
                  top_exre = None\<rparr>,
                 False, [MInstance]) of
           (i1, error1, h1) \<Rightarrow>
             (case regex_options options (REG_ICASE, error1) of
                (cflags, error2) \<Rightarrow>
                  (case top_compile_exclude regcomp cflags
                          (top_compile_match regcomp cflags
                             (i1\<lparr>top_sessions := 0\<rparr>,
                              (if top_filebase i1 = None then True else error2), h1)) of
                     (i2, error, h2) \<Rightarrow>
                       if error then (None, top_release i2 h2) else (Some i2, h2))))
      else (None, []))"

subsection \<open>The hysteresis filter\<close>

text \<open>
  This \<^verbatim>\<open>createInstance\<close> has no error flag: an unexpected parameter, an unsupported option
  and a pattern that does not compile are reported with \<^verbatim>\<open>MXS_ERROR\<close> and the instance is
  returned all the same. A pattern that failed to compile keeps its text. The last branch of
  the parameter loop, \<^verbatim>\<open>else if (!filter_standard_parameter(name))\<close>, only reports.
\<close>

definition ccr_param ::
  "string \<times> string \<Rightarrow> 'r ccr_instance \<times> heap \<Rightarrow> 'r ccr_instance \<times> heap" where
  "ccr_param param st =
     (case (param, st) of ((name, v), (my_instance, h)) \<Rightarrow>
        if name = ''count'' then (my_instance\<lparr>ccr_count := atoi v\<rparr>, h)
        else if name = ''time'' then (my_instance\<lparr>ccr_time := atoi v\<rparr>, h)
        else if name = ''match'' then (my_instance\<lparr>ccr_match := Some v\<rparr>, mxs_strdup v h)
        else if name = ''ignore'' then (my_instance\<lparr>ccr_nomatch := Some v\<rparr>, mxs_strdup v h)
        else (my_instance, h))"

primrec ccr_params ::
  "(string \<times> string) list \<Rightarrow> 'r ccr_instance \<times> heap \<Rightarrow> 'r ccr_instance \<times> heap" where
  "ccr_params [] st = st"
| "ccr_params (param # rest) st = ccr_params rest (ccr_param param st)"

definition CCR_DEFAULT_TIME :: int where "CCR_DEFAULT_TIME = 60"

definition ccr_createInstance ::
  "(string \<Rightarrow> 32 word \<Rightarrow> 'r option) \<Rightarrow> bool \<Rightarrow> string list
     \<Rightarrow> (string \<times> string) list \<Rightarrow> 'r ccr_instance option \<times> heap" where
  "ccr_createInstance regcomp calloc_ok options params =
     (if calloc_ok then
        (case ccr_params params
                (\<lparr>ccr_match = None, ccr_nomatch = None, ccr_time = CCR_DEFAULT_TIME, ccr_count = 0,
                  ccr_stats = \<lparr>n_add_count = 0, n_add_time = 0, n_modified = 0\<rparr>,
                  ccr_re = None, ccr_nore = None\<rparr>, [MInstance]) of
           (i1, h1) \<Rightarrow>
             (case regex_options options (REG_ICASE, False) of
                (cflags, unsupported) \<Rightarrow>
                  (case (case ccr_match i1 of
                           None \<Rightarrow> (i1, h1)
                         | Some p \<Rightarrow>
                             (case regcomp p cflags of
                                Some r \<Rightarrow> (i1\<lparr>ccr_re := Some r\<rparr>, MRegex ''re'' # h1)
                              | None \<Rightarrow> (i1, h1))) of
                     (i2, h2) \<Rightarrow>
                       (case ccr_nomatch i2 of
                          None \<Rightarrow> (Some i2, h2)
                        | Some p \<Rightarrow>
                            (case regcomp p cflags of
                               Some r \<Rightarrow> (Some (i2\<lparr>ccr_nore := Some r\<rparr>), MRegex ''nore'' # h2)
                             | None \<Rightarrow> (Some i2, h2))))))
      else (None, []))"


subsection \<open>What an instance owns, and what makes a configuration wrong\<close>

text \<open>
  \<open>qla_owned\<close> and \<open>top_owned\<close>: the allocations an instance under construction refers to:
  itself, the text of each string field that is set, and the compiled expression of each
  pattern that has both its text and its \<^verbatim>\<open>regex_t\<close>. \<open>qla_unset\<close> and \<open>top_unset\<close>: the string
  fields that the listed parameter names would set are still \<^verbatim>\<open>NULL\<close>.
  \<open>qla_config_error\<close> and \<open>top_config_error\<close>: a match or exclude pattern that does not compile
  under the flags the options give, a missing filebase, or a parameter that the filter does
  not know and that is not a standard one.
\<close>

definition owned_str :: "string option \<Rightarrow> alloc multiset" where
  "owned_str p = (case p of None \<Rightarrow> {#} | Some v \<Rightarrow> {#MString v#})"

definition owned_rx :: "string \<Rightarrow> string option \<Rightarrow> 'r option \<Rightarrow> alloc multiset" where
  "owned_rx field p r = (if p = None \<or> r = None then {#} else {#MRegex field#})"

definition qla_owned :: "'r qla_instance \<Rightarrow> alloc multiset" where
  "qla_owned i =
     {#MInstance#} + owned_str (qla_match i) + owned_rx ''re'' (qla_match i) (qla_re i)
       + owned_str (qla_nomatch i) + owned_rx ''nore'' (qla_nomatch i) (qla_nore i)
       + owned_str (qla_filebase i) + owned_str (qla_source i) + owned_str (qla_userName i)"

definition qla_known :: "string \<Rightarrow> bool" where
  "qla_known n = (n \<in> set [''match'', ''exclude'', ''source'', ''user'', ''filebase''])"

definition cflags_of :: "string list \<Rightarrow> 32 word" where
  "cflags_of options = fst (regex_options options (REG_ICASE, False))"

definition fails_to_compile ::
  "(string \<Rightarrow> 32 word \<Rightarrow> 'r option) \<Rightarrow> string list \<Rightarrow> string option \<Rightarrow> bool" where
  "fails_to_compile regcomp options p =
     (case p of None \<Rightarrow> False | Some v \<Rightarrow> regcomp v (cflags_of options) = None)"

definition qla_config_error ::
  "(string \<Rightarrow> bool) \<Rightarrow> (string \<Rightarrow> 32 word \<Rightarrow> 'r option) \<Rightarrow> string list
     \<Rightarrow> (string \<times> string) list \<Rightarrow> bool" where
  "qla_config_error std regcomp options params =
     (fails_to_compile regcomp options (map_of params ''match'')
      \<or> fails_to_compile regcomp options (map_of params ''exclude'')
      \<or> map_of params ''filebase'' = None
      \<or> list_ex (\<lambda>n. \<not> qla_known n \<and> \<not> std n) (map fst params))"

definition qla_unset :: "string list \<Rightarrow> 'r qla_instance \<Rightarrow> bool" where
  "qla_unset names i =
     ((''match'' \<notin> set names \<or> qla_match i = None)
      \<and> (''exclude'' \<notin> set names \<or> qla_nomatch i = None)
      \<and> (''source'' \<notin> set names \<or> qla_source i = None)
      \<and> (''user'' \<notin> set names \<or> qla_userName i = None)
      \<and> (''filebase'' \<notin> set names \<or> qla_filebase i = None))"

definition top_owned :: "'r top_instance \<Rightarrow> alloc multiset" where
  "top_owned i =
     {#MInstance#} + owned_str (top_match i) + owned_rx ''re'' (top_match i) (top_re i)
       + owned_str (top_exclude i) + owned_rx ''exre'' (top_exclude i) (top_exre i)
       + owned_str (top_filebase i) + owned_str (top_source i) + owned_str (top_user i)"

definition top_known :: "string \<Rightarrow> bool" where
  "top_known n = (n \<in> set [''count'', ''filebase'', ''match'', ''exclude'', ''source'', ''user''])"

definition top_config_error ::
  "(string \<Rightarrow> bool) \<Rightarrow> (string \<Rightarrow> 32 word \<Rightarrow> 'r option) \<Rightarrow> string list
     \<Rightarrow> (string \<times> string) list \<Rightarrow> bool" where
  "top_config_error std regcomp options params =
     (fails_to_compile regcomp options (map_of params ''match'')
      \<or> fails_to_compile regcomp options (map_of params ''exclude'')
      \<or> map_of params ''filebase'' = None
      \<or> list_ex (\<lambda>n. \<not> top_known n \<and> \<not> std n) (map fst params))"

definition top_unset :: "string list \<Rightarrow> 'r top_instance \<Rightarrow> bool" where
  "top_unset names i =
     ((''match'' \<notin> set names \<or> top_match i = None)
      \<and> (''exclude'' \<notin> set names \<or> top_exclude i = None)
      \<and> (''source'' \<notin> set names \<or> top_source i = None)
      \<and> (''user'' \<notin> set names \<or> top_user i = None)
      \<and> (''filebase'' \<notin> set names \<or> top_filebase i = None))"


section \<open>Sample collaborators and inputs for the worked examples\<close>

text \<open>
  A small extractor and classifier to run the filters on: every buffer is SQL, its text is
  its payload, the operation is read off the first word, and a pattern matches the strings
  it is a prefix of.
\<close>

definition first_word :: "string \<Rightarrow> string" where
  "first_word s = takeWhile (\<lambda>c. c \<noteq> CHR '' '') s"

definition test_ext :: "string ext" where
  "test_ext =
     \<lparr>modutil_is_SQL = (\<lambda>q. True),
      modutil_get_SQL = (\<lambda>q. Some (payload q)),
      qc_get_operation = (\<lambda>q. if first_word (payload q) = ''SELECT'' then QUERY_OP_SELECT
                                else if first_word (payload q) = ''INSERT'' then QUERY_OP_INSERT
                                else QUERY_OP_UNDEFINED),
      regexec = (\<lambda>r s. if take (length r) s = r then 0 else 1),
      trim = (\<lambda>s. s),
      squeeze_whitespace = (\<lambda>s. s),
      strftime_FT = (\<lambda>t. ''2016-10-10 12:00:00'')\<rparr>"

definition test_ccr_instance :: "int \<Rightarrow> int \<Rightarrow> string ccr_instance" where
  "test_ccr_instance c t =
     \<lparr>ccr_match = None, ccr_nomatch = None, ccr_time = t, ccr_count = c,
      ccr_stats = \<lparr>n_add_count = 0, n_add_time = 0, n_modified = 0\<rparr>,
      ccr_re = None, ccr_nore = None\<rparr>"

definition sql_buf :: "string \<Rightarrow> gwbuf" where
  "sql_buf s = \<lparr>gw_chain = [s], gw_hint = []\<rparr>"

definition test_top_instance :: "int \<Rightarrow> string option \<Rightarrow> string top_instance" where
  "test_top_instance n src =
     \<lparr>top_sessions = 0, topN = n, top_filebase = Some ''/tmp/top'', top_source = src,
      top_user = None, top_match = None, top_re = None, top_exclude = None, top_exre = None\<rparr>"

definition test_client :: client where
  "test_client = \<lparr>session_get_remote = Some ''10.0.0.2'', session_getUser = Some ''bob''\<rparr>"

definition secs :: "int \<Rightarrow> timeval" where
  "secs n = \<lparr>tv_sec = n, tv_usec = 0\<rparr>"

text \<open>
  A stand-in for \<^verbatim>\<open>regcomp\<close>: a pattern with an opening bracket and no closing one is
  refused (the C library answers \<^verbatim>\<open>REG_EBRACK\<close> to it under any flags); any other pattern
  is taken as compiled.
\<close>

definition test_regcomp :: "string \<Rightarrow> 32 word \<Rightarrow> string option" where
  "test_regcomp p cflags =
     (if CHR ''['' \<in> set p \<and> CHR '']'' \<notin> set p then None else Some p)"

definition test_std :: "string \<Rightarrow> bool" where
  "test_std n = (n \<in> set [''type'', ''module''])"

definition top_started :: "string top_instance \<Rightarrow> string top_instance \<times> top_session" where
  "top_started i0 = projr (top_newSession True True i0 test_client (secs 100))"

definition test_events :: "top_event list" where
  "test_events =
     [RouteQuery (sql_buf ''SELECT 1'') (secs 100), ClientReply (sql_buf ''ok'') (secs 105),
      RouteQuery (sql_buf ''SELECT 2'') (secs 106), ClientReply (sql_buf ''ok'') (secs 107),
      RouteQuery (sql_buf ''SELECT 3'') (secs 108), ClientReply (sql_buf ''ok'') (secs 117)]"

definition test_full_session :: top_session where
  "test_full_session =
     \<lparr>top_active = True, clientHost = Some ''10.0.0.2'', userName = Some ''bob'',
      top_filename = ''/tmp/top.1'', start = secs 200, current = Some ''SELECT 4'',
      top_arr = [\<lparr>duration = secs 9, sql = Some ''SELECT 3''\<rparr>,
                 \<lparr>duration = secs 5, sql = Some ''SELECT 1''\<rparr>],
      n_statements = 4, total_tv = secs 15, connect = secs 100, disconnect = secs 0\<rparr>"

definition test_qla_instance :: "string qla_instance" where
  "test_qla_instance =
     \<lparr>qla_sessions = 1, qla_filebase = Some ''/tmp/qla'', qla_source = None, qla_userName = None,
      qla_match = Some ''SELECT'', qla_re = Some ''SELECT'',
      qla_nomatch = Some ''SELECT secret'', qla_nore = Some ''SELECT secret''\<rparr>"

definition test_qla_session :: qla_session where
  "test_qla_session =
     \<lparr>qla_filename = ''/tmp/qla.0'', qla_fp = Some ''/tmp/qla.0'', qla_active = True,
      qla_user = Some ''bob'', qla_remote = Some ''10.0.0.2''\<rparr>"

definition ms :: "int \<Rightarrow> timeval" where
  "ms n = \<lparr>tv_sec = n div 1000, tv_usec = (n mod 1000) * 1000\<rparr>"

definition twelve :: "top_event list" where
  "twelve =
     [RouteQuery (sql_buf ''q1'') (ms 0), ClientReply (sql_buf ''ok'') (ms 5000),
      RouteQuery (sql_buf ''q2'') (ms 5000), ClientReply (sql_buf ''ok'') (ms 6000),
      RouteQuery (sql_buf ''q3'') (ms 6000), ClientReply (sql_buf ''ok'') (ms 15000),
      RouteQuery (sql_buf ''q4'') (ms 15000), ClientReply (sql_buf ''ok'') (ms 17000),
      RouteQuery (sql_buf ''q5'') (ms 17000), ClientReply (sql_buf ''ok'') (ms 25000),
      RouteQuery (sql_buf ''q6'') (ms 25000), ClientReply (sql_buf ''ok'') (ms 28000),
      RouteQuery (sql_buf ''q7'') (ms 28000), ClientReply (sql_buf ''ok'') (ms 35000),
      RouteQuery (sql_buf ''q8'') (ms 35000), ClientReply (sql_buf ''ok'') (ms 39000),
      RouteQuery (sql_buf ''q9'') (ms 39000), ClientReply (sql_buf ''ok'') (ms 45000),
      RouteQuery (sql_buf ''q10'') (ms 45000), ClientReply (sql_buf ''ok'') (ms 45500),
      RouteQuery (sql_buf ''q11'') (ms 45500), ClientReply (sql_buf ''ok'') (ms 55500),
      RouteQuery (sql_buf ''q12'') (ms 55500), ClientReply (sql_buf ''ok'') (ms 55600)]"



section \<open>Properties of the hysteresis filter\<close>

lemma ccr_routeQuery_keeps_config:
  assumes "ccr_routeQuery x i s q now = Inr (i', s', f)"
  shows "ccr_count i' = ccr_count i \<and> ccr_time i' = ccr_time i \<and> ccr_match i' = ccr_match i
       \<and> ccr_nomatch i' = ccr_nomatch i \<and> ccr_re i' = ccr_re i \<and> ccr_nore i' = ccr_nore i"
  using assms
  by (auto simp: ccr_routeQuery_def ccr_modified_def Let_def
      split: if_splits option.splits sum.splits bool.splits)

lemma ccr_routeQuery_hints_left:
  assumes "ccr_routeQuery x i s q now = Inr (i', s', f)" and "0 \<le> ccr_count i" and "0 \<le> hints_left s"
  shows "0 \<le> hints_left s'"
  using assms
  by (auto simp: ccr_routeQuery_def ccr_modified_def Let_def
      split: if_splits option.splits sum.splits bool.splits)

lemma ccr_routeQuery_hints_left_cases:
  assumes "ccr_routeQuery x i s q now = Inr (i', s', f)"
  shows "hints_left s' = hints_left s \<or> hints_left s' = ccr_count i
       \<or> (0 < hints_left s \<and> hints_left s' = hints_left s - 1)"
  using assms
  by (auto simp: ccr_routeQuery_def ccr_modified_def Let_def
      split: if_splits option.splits sum.splits bool.splits)

lemma ccr_routeQuery_total:
  assumes "ccr_compiled i"
  shows "\<exists>r. ccr_routeQuery x i s q now = Inr r"
  using assms
  by (auto simp: ccr_routeQuery_def ccr_modified_def ccr_compiled_def ccr_not_ignored_def ccr_matched_def regexec_t_def Let_def
      split: if_splits option.splits sum.splits bool.splits)

lemma ccr_trace_hints_left:
  assumes "ccr_trace x i s calls = Inr tr" and "0 \<le> ccr_count i" and "0 \<le> hints_left s"
  shows "list_all (\<lambda>(i', s', f). 0 \<le> hints_left s') tr"
  using assms
proof (induction calls arbitrary: i s tr)
  case Nil
  then show ?case by simp
next
  case (Cons c calls)
  obtain q now where c: "c = (q, now)" by (cases c)
  from Cons.prems(1) c obtain i1 s1 f1 tr1 where
    step: "ccr_routeQuery x i s q now = Inr (i1, s1, f1)" and
    rest: "ccr_trace x i1 s1 calls = Inr tr1" and tr: "tr = (i1, s1, f1) # tr1"
    by (auto split: sum.splits)
  have h1: "0 \<le> hints_left s1"
    using ccr_routeQuery_hints_left [OF step Cons.prems(2) Cons.prems(3)] .
  have c1: "0 \<le> ccr_count i1"
    using ccr_routeQuery_keeps_config [OF step] Cons.prems(2) by simp
  from Cons.IH [OF rest c1 h1] h1 tr show ?case by simp
qed

lemma ccr_trace_total:
  assumes "ccr_compiled i"
  shows "\<exists>tr. ccr_trace x i s calls = Inr tr"
  using assms
proof (induction calls arbitrary: i s)
  case Nil
  then show ?case by simp
next
  case (Cons c calls)
  obtain q now where c: "c = (q, now)" by (cases c)
  from ccr_routeQuery_total [OF Cons.prems] obtain i1 s1 f1 where
    step: "ccr_routeQuery x i s q now = Inr (i1, s1, f1)" by (metis prod_cases3)
  have "ccr_compiled i1"
    using ccr_routeQuery_keeps_config [OF step] Cons.prems by (simp add: ccr_compiled_def)
  from Cons.IH [OF this] obtain tr1 where "ccr_trace x i1 s1 calls = Inr tr1" by blast
  with step c show ?case by simp
qed

text \<open>
  Claim C9. A session made by \<^verbatim>\<open>newSession\<close> for an instance whose count is not negative
  starts with \<open>hints_left = 0\<close>, and after every call of every sequence of \<^verbatim>\<open>routeQuery\<close>
  calls \<open>hints_left\<close> is not negative. The sequence runs to its end whenever the
  instance's patterns were compiled.
\<close>

theorem ccr_hints_left_never_negative:
  assumes "0 \<le> ccr_count i" and "ccr_newSession malloc_ok i = Some s0"
  shows "(\<forall>tr. ccr_trace x i s0 calls = Inr tr \<longrightarrow> list_all (\<lambda>(i', s', f). 0 \<le> hints_left s') tr)
       \<and> hints_left s0 = 0
       \<and> (ccr_compiled i \<longrightarrow> (\<exists>tr. ccr_trace x i s0 calls = Inr tr))"
proof -
  from assms(2) have s0: "hints_left s0 = 0"
    by (auto simp: ccr_newSession_def split: if_splits)
  then have "0 \<le> hints_left s0" by simp
  with assms(1) ccr_trace_hints_left ccr_trace_total s0 show ?thesis by blast
qed

theorem ccr_hints_left_never_negative_witness:
  "ccr_newSession True (test_ccr_instance 1 0) = Some \<lparr>hints_left = 0, last_modification = 0\<rparr>
   \<and> ccr_compiled (test_ccr_instance 1 0)
   \<and> (\<exists>tr. ccr_trace test_ext (test_ccr_instance 1 0) \<lparr>hints_left = 0, last_modification = 0\<rparr>
              [(sql_buf ''INSERT INTO t VALUES (1)'', 5), (sql_buf ''SELECT 1'', 6),
               (sql_buf ''SELECT 1'', 7)] = Inr tr
          \<and> list_all (\<lambda>(i', s', f). 0 \<le> hints_left s') tr)"
proof -
  have n: "ccr_newSession True (test_ccr_instance 1 0) = Some \<lparr>hints_left = 0, last_modification = 0\<rparr>"
    by (simp add: ccr_newSession_def)
  have c: "ccr_compiled (test_ccr_instance 1 0)"
    by (simp add: ccr_compiled_def test_ccr_instance_def)
  have k: "0 \<le> ccr_count (test_ccr_instance 1 0)"
    by (simp add: test_ccr_instance_def)
  from ccr_hints_left_never_negative [OF k n, of test_ext] n c show ?thesis by blast
qed

lemma gw_hint_contiguous: "gw_hint (contiguous q) = gw_hint q"
  by (simp add: contiguous_def gwbuf_make_contiguous_def)

lemma ccr_read_by_count:
  assumes "modutil_is_SQL x r" and "qc_get_operation x (contiguous r) AND NOT QUERY_OP_SELECT = 0"
    and "0 < hints_left s"
  shows "ccr_routeQuery x i s r now =
     Inr (i\<lparr>ccr_stats := (ccr_stats i)\<lparr>n_add_count := n_add_count (ccr_stats i) + 1\<rparr>\<rparr>,
          s\<lparr>hints_left := hints_left s - 1\<rparr>, with_master_hint r)"
  using assms
  by (simp add: ccr_routeQuery_def Let_def with_master_hint_def hint_create_route_def gw_hint_contiguous)

lemma ccr_read_by_time:
  assumes "modutil_is_SQL x r" and "qc_get_operation x (contiguous r) AND NOT QUERY_OP_SELECT = 0"
    and "\<not> 0 < hints_left s" and "now - last_modification s < ccr_time i"
  shows "ccr_routeQuery x i s r now =
     Inr (i\<lparr>ccr_stats := (ccr_stats i)\<lparr>n_add_time := n_add_time (ccr_stats i) + 1\<rparr>\<rparr>,
          s, with_master_hint r)"
  using assms
  by (simp add: ccr_routeQuery_def Let_def with_master_hint_def hint_create_route_def gw_hint_contiguous)

lemma ccr_write:
  assumes "modutil_is_SQL x w" and "qc_get_operation x (contiguous w) AND NOT QUERY_OP_SELECT \<noteq> 0"
    and "modutil_get_SQL x (contiguous w) = Some stmt"
    and "ccr_not_ignored x i stmt = Inr True" and "ccr_matched x i stmt = Inr True"
  shows "ccr_routeQuery x i s w now =
     Inr (i\<lparr>ccr_stats := (ccr_stats i)\<lparr>n_modified := n_modified (ccr_stats i) + 1\<rparr>\<rparr>,
          s\<lparr>hints_left := ccr_count i, last_modification := now\<rparr>, contiguous w)"
  using assms
  by (simp add: ccr_routeQuery_def Let_def ccr_modified_def)

lemma select_is_read: "QUERY_OP_SELECT AND NOT QUERY_OP_SELECT = 0"
  by simp

lemma undefined_is_read: "QUERY_OP_UNDEFINED AND NOT QUERY_OP_SELECT = 0"
  by (simp add: QUERY_OP_UNDEFINED_def)

text \<open>
  Claim C5. With count 2 and time 60: a data-modifying statement at \<open>t0\<close> that passes the
  ignore and match tests leaves \<open>hints_left = 2\<close>; the next two selects are each passed on
  with a route-to-master hint and \<open>hints_left\<close> goes to 1 and then to 0; a third select at
  \<open>t3\<close> with \<open>t3 - t0 < 60\<close> is passed on with the hint too, by the time rule:
  \<open>hints_left\<close> stays 0, the by-count statistic stays, the by-time statistic goes up by one.
\<close>

theorem ccr_two_by_count_third_by_time:
  assumes cfg: "ccr_count i = 2" "ccr_time i = 60"
    and w: "modutil_is_SQL x w" "qc_get_operation x (contiguous w) AND NOT QUERY_OP_SELECT \<noteq> 0"
           "modutil_get_SQL x (contiguous w) = Some stmt"
           "ccr_not_ignored x i stmt = Inr True" "ccr_matched x i stmt = Inr True"
    and r: "list_all (\<lambda>r. modutil_is_SQL x r \<and> qc_get_operation x (contiguous r) = QUERY_OP_SELECT)
              [r1, r2, r3]"
    and t: "t3 - t0 < 60"
  shows "\<exists>i1 i2 i3 i4.
          ccr_trace x i s [(w, t0), (r1, t1), (r2, t2), (r3, t3)] =
            Inr [(i1, \<lparr>hints_left = 2, last_modification = t0\<rparr>, contiguous w),
                 (i2, \<lparr>hints_left = 1, last_modification = t0\<rparr>, with_master_hint r1),
                 (i3, \<lparr>hints_left = 0, last_modification = t0\<rparr>, with_master_hint r2),
                 (i4, \<lparr>hints_left = 0, last_modification = t0\<rparr>, with_master_hint r3)]
        \<and> n_add_count (ccr_stats i3) = n_add_count (ccr_stats i) + 2
        \<and> n_add_count (ccr_stats i4) = n_add_count (ccr_stats i3)
        \<and> n_add_time (ccr_stats i3) = n_add_time (ccr_stats i)
        \<and> n_add_time (ccr_stats i4) = n_add_time (ccr_stats i) + 1"
proof -
  let ?s1 = "\<lparr>hints_left = 2, last_modification = t0\<rparr>"
  let ?s2 = "\<lparr>hints_left = 1, last_modification = t0\<rparr>"
  let ?s3 = "\<lparr>hints_left = 0, last_modification = t0\<rparr>"
  from r have rd: "modutil_is_SQL x r1" "modutil_is_SQL x r2" "modutil_is_SQL x r3"
    "qc_get_operation x (contiguous r1) AND NOT QUERY_OP_SELECT = 0"
    "qc_get_operation x (contiguous r2) AND NOT QUERY_OP_SELECT = 0"
    "qc_get_operation x (contiguous r3) AND NOT QUERY_OP_SELECT = 0"
    by simp_all
  obtain i1 where a: "ccr_routeQuery x i s w t0 = Inr (i1, ?s1, contiguous w)"
    and a1: "n_add_count (ccr_stats i1) = n_add_count (ccr_stats i)"
            "n_add_time (ccr_stats i1) = n_add_time (ccr_stats i)" "ccr_time i1 = 60"
    using ccr_write [OF w, of s t0] cfg by simp
  obtain i2 where b: "ccr_routeQuery x i1 ?s1 r1 t1 = Inr (i2, ?s2, with_master_hint r1)"
    and b1: "n_add_count (ccr_stats i2) = n_add_count (ccr_stats i1) + 1"
            "n_add_time (ccr_stats i2) = n_add_time (ccr_stats i1)" "ccr_time i2 = 60"
    using ccr_read_by_count [OF rd(1) rd(4), of ?s1 i1 t1] a1 by simp
  obtain i3 where c: "ccr_routeQuery x i2 ?s2 r2 t2 = Inr (i3, ?s3, with_master_hint r2)"
    and c1: "n_add_count (ccr_stats i3) = n_add_count (ccr_stats i2) + 1"
            "n_add_time (ccr_stats i3) = n_add_time (ccr_stats i2)" "ccr_time i3 = 60"
    using ccr_read_by_count [OF rd(2) rd(5), of ?s2 i2 t2] b1 by simp
  obtain i4 where d: "ccr_routeQuery x i3 ?s3 r3 t3 = Inr (i4, ?s3, with_master_hint r3)"
    and d1: "n_add_count (ccr_stats i4) = n_add_count (ccr_stats i3)"
            "n_add_time (ccr_stats i4) = n_add_time (ccr_stats i3) + 1"
    using ccr_read_by_time [OF rd(3) rd(6), of ?s3 t3 i3] t c1 by simp
  have "ccr_trace x i s [(w, t0), (r1, t1), (r2, t2), (r3, t3)] =
            Inr [(i1, ?s1, contiguous w), (i2, ?s2, with_master_hint r1),
                 (i3, ?s3, with_master_hint r2), (i4, ?s3, with_master_hint r3)]"
    by (simp add: a b c d)
  with a1 b1 c1 d1 show ?thesis by auto
qed

lemma test_ops:
  "qc_get_operation test_ext (contiguous (sql_buf ''SELECT 1'')) = QUERY_OP_SELECT"
  "qc_get_operation test_ext (contiguous (sql_buf ''INSERT INTO t VALUES (1)'')) = QUERY_OP_INSERT"
  by (simp_all add: test_ext_def sql_buf_def contiguous_def has_next_def payload_def first_word_def)

theorem ccr_two_by_count_third_by_time_witness:
  "\<exists>i1 i2 i3 i4.
     ccr_trace test_ext (test_ccr_instance 2 60) \<lparr>hints_left = 0, last_modification = 0\<rparr>
        [(sql_buf ''INSERT INTO t VALUES (1)'', 1000), (sql_buf ''SELECT 1'', 1001),
         (sql_buf ''SELECT 1'', 1002), (sql_buf ''SELECT 1'', 1059)] =
       Inr [(i1, \<lparr>hints_left = 2, last_modification = 1000\<rparr>, sql_buf ''INSERT INTO t VALUES (1)''),
            (i2, \<lparr>hints_left = 1, last_modification = 1000\<rparr>, with_master_hint (sql_buf ''SELECT 1'')),
            (i3, \<lparr>hints_left = 0, last_modification = 1000\<rparr>, with_master_hint (sql_buf ''SELECT 1'')),
            (i4, \<lparr>hints_left = 0, last_modification = 1000\<rparr>, with_master_hint (sql_buf ''SELECT 1''))]"
proof -
  have c: "contiguous (sql_buf ''INSERT INTO t VALUES (1)'') = sql_buf ''INSERT INTO t VALUES (1)''"
    by (simp add: contiguous_def has_next_def sql_buf_def)
  have "\<exists>i1 i2 i3 i4.
          ccr_trace test_ext (test_ccr_instance 2 60) \<lparr>hints_left = 0, last_modification = 0\<rparr>
            [(sql_buf ''INSERT INTO t VALUES (1)'', 1000), (sql_buf ''SELECT 1'', 1001),
             (sql_buf ''SELECT 1'', 1002), (sql_buf ''SELECT 1'', 1059)] =
            Inr [(i1, \<lparr>hints_left = 2, last_modification = 1000\<rparr>, contiguous (sql_buf ''INSERT INTO t VALUES (1)'')),
                 (i2, \<lparr>hints_left = 1, last_modification = 1000\<rparr>, with_master_hint (sql_buf ''SELECT 1'')),
                 (i3, \<lparr>hints_left = 0, last_modification = 1000\<rparr>, with_master_hint (sql_buf ''SELECT 1'')),
                 (i4, \<lparr>hints_left = 0, last_modification = 1000\<rparr>, with_master_hint (sql_buf ''SELECT 1''))]
        \<and> n_add_count (ccr_stats i3) = n_add_count (ccr_stats (test_ccr_instance 2 60)) + 2
        \<and> n_add_count (ccr_stats i4) = n_add_count (ccr_stats i3)
        \<and> n_add_time (ccr_stats i3) = n_add_time (ccr_stats (test_ccr_instance 2 60))
        \<and> n_add_time (ccr_stats i4) = n_add_time (ccr_stats (test_ccr_instance 2 60)) + 1"
    by (rule ccr_two_by_count_third_by_time [where stmt = "''INSERT INTO t VALUES (1)''"])
       (simp_all add: test_ops, simp_all add: test_ccr_instance_def test_ext_def ccr_not_ignored_def ccr_matched_def
          QUERY_OP_INSERT_def QUERY_OP_SELECT_def c, simp_all add: sql_buf_def payload_def)
  then show ?thesis unfolding c by blast
qed

text \<open>
  Claim C3 says that a statement whose operation is undefined takes the data-modification
  rule. With the dummy classifier, which answers \<^verbatim>\<open>QUERY_OP_UNDEFINED\<close> for every statement, a
  session with one hint left handles the statement \<^verbatim>\<open>FLUSH TABLES\<close> by the read rule: the
  hint is attached, \<open>hints_left\<close> drops to 0, \<open>last_modification\<close> and \<open>n_modified\<close> stay.
\<close>

theorem ccr_undefined_operation_is_routed_as_read:
  "ccr_routeQuery
      \<lparr>modutil_is_SQL = (\<lambda>q. True), modutil_get_SQL = (\<lambda>q. Some (payload q)),
       qc_get_operation = dummy_qc_get_operation, regexec = (\<lambda>(r :: string) s. 1),
       trim = (\<lambda>s. s), squeeze_whitespace = (\<lambda>s. s), strftime_FT = (\<lambda>t. [])\<rparr>
      \<lparr>ccr_match = None, ccr_nomatch = None, ccr_time = 60, ccr_count = 1,
       ccr_stats = \<lparr>n_add_count = 0, n_add_time = 0, n_modified = 0\<rparr>,
       ccr_re = None, ccr_nore = None\<rparr>
      \<lparr>hints_left = 1, last_modification = 0\<rparr>
      \<lparr>gw_chain = [''FLUSH TABLES''], gw_hint = []\<rparr> 100
   = Inr (\<lparr>ccr_match = None, ccr_nomatch = None, ccr_time = 60, ccr_count = 1,
           ccr_stats = \<lparr>n_add_count = 1, n_add_time = 0, n_modified = 0\<rparr>,
           ccr_re = None, ccr_nore = None\<rparr>,
          \<lparr>hints_left = 0, last_modification = 0\<rparr>,
          \<lparr>gw_chain = [''FLUSH TABLES''], gw_hint = [Hint HINT_ROUTE_TO_MASTER None]\<rparr>)"
  by (simp add: ccr_routeQuery_def Let_def dummy_qc_get_operation_def QUERY_OP_UNDEFINED_def
      QUERY_OP_SELECT_def contiguous_def has_next_def hint_create_route_def)

text \<open>
  Two runs with no patterns configured. Count 1 and time 0: of three selects after an insert
  only the first is sent to the master. Count 0 and time 60: a select 61 seconds after the
  insert is not.
\<close>

lemma ccr_scenario_count_one_time_zero:
  "map_sum id (map (\<lambda>(i, s, f). (hints_left s, gw_hint f)))
     (ccr_trace test_ext (test_ccr_instance 1 0) \<lparr>hints_left = 0, last_modification = 0\<rparr>
        [(sql_buf ''INSERT INTO t VALUES (1)'', 10), (sql_buf ''SELECT 1'', 10),
         (sql_buf ''SELECT 2'', 10), (sql_buf ''SELECT 3'', 10)])
   = Inr [(1, []), (0, [Hint HINT_ROUTE_TO_MASTER None]), (0, []), (0, [])]"
  by (simp add: ccr_routeQuery_def ccr_modified_def ccr_not_ignored_def ccr_matched_def Let_def
      test_ext_def test_ccr_instance_def sql_buf_def contiguous_def has_next_def payload_def
      first_word_def hint_create_route_def QUERY_OP_SELECT_def QUERY_OP_INSERT_def
      QUERY_OP_UNDEFINED_def)

lemma ccr_scenario_window_expired:
  "map_sum id (map (\<lambda>(i, s, f). (hints_left s, gw_hint f)))
     (ccr_trace test_ext (test_ccr_instance 0 60) \<lparr>hints_left = 0, last_modification = 0\<rparr>
        [(sql_buf ''INSERT INTO t VALUES (1)'', 1000), (sql_buf ''SELECT 1'', 1061)])
   = Inr [(0, []), (0, [])]"
  by (simp add: ccr_routeQuery_def ccr_modified_def ccr_not_ignored_def ccr_matched_def Let_def
      test_ext_def test_ccr_instance_def sql_buf_def contiguous_def has_next_def payload_def
      first_word_def hint_create_route_def QUERY_OP_SELECT_def QUERY_OP_INSERT_def
      QUERY_OP_UNDEFINED_def)


section \<open>Properties of the top-N filter\<close>

lemma wrap_int_id: "- 2147483648 \<le> v \<Longrightarrow> v < 2147483648 \<Longrightarrow> wrap_int v = v"
  by (simp add: wrap_int_def)

lemma cmp_topn_bounded:
  assumes "bounded (duration a)" and "bounded (duration b)"
  shows "(cmp_topn a b \<le> 0) = dur_ge (duration a) (duration b)"
proof -
  have s: "wrap_int (tv_sec (duration b) - tv_sec (duration a)) = tv_sec (duration b) - tv_sec (duration a)"
    using assms by (intro wrap_int_id) (simp_all add: bounded_def)
  have u: "wrap_int (tv_usec (duration b) - tv_usec (duration a)) = tv_usec (duration b) - tv_usec (duration a)"
    using assms by (intro wrap_int_id) (simp_all add: bounded_def)
  show ?thesis
    by (auto simp: cmp_topn_def s u dur_ge_def)
qed

text \<open>
  Without the bound the value returned by \<^verbatim>\<open>cmp_topn\<close> can lose the sign of the difference:
  a duration of 0 seconds compares as if it were longer than one of \<open>2^31\<close> seconds.
\<close>

lemma cmp_topn_truncated:
  "cmp_topn \<lparr>duration = secs 0, sql = Some ''a''\<rparr> \<lparr>duration = secs 2147483648, sql = Some ''b''\<rparr>
     = - 2147483648"
  by (simp add: cmp_topn_def secs_def wrap_int_def)

lemma dur_ge_total: "\<not> dur_ge a b \<Longrightarrow> dur_ge b a"
  by (auto simp: dur_ge_def)

lemma dur_ge_trans: "dur_ge a b \<Longrightarrow> dur_ge b c \<Longrightarrow> dur_ge a c"
  by (auto simp: dur_ge_def)

lemma set_qsort_insert: "set (qsort_insert cmp x ys) = insert x (set ys)"
  by (induction ys) auto

lemma length_qsort_insert: "length (qsort_insert cmp x ys) = Suc (length ys)"
  by (induction ys) auto

lemma set_qsort: "set (qsort cmp xs) = set xs"
  by (induction xs) (auto simp: qsort_def set_qsort_insert)

lemma length_qsort: "length (qsort cmp xs) = length xs"
  by (induction xs) (auto simp: qsort_def length_qsort_insert)

lemma descending_qsort_insert:
  assumes "bounded (duration x)" and "list_all (\<lambda>e. bounded (duration e)) ys" and "descending ys"
  shows "descending (qsort_insert cmp_topn x ys)"
  using assms
proof (induction ys)
  case Nil
  then show ?case by (simp add: descending_def)
next
  case (Cons y ys)
  have c: "(cmp_topn x y \<le> 0) = dur_ge (duration x) (duration y)"
    using Cons.prems by (simp add: cmp_topn_bounded)
  show ?case
  proof (cases "cmp_topn x y \<le> 0")
    case True
    with c have xy: "dur_ge (duration x) (duration y)" by simp
    have "\<forall>z\<in>set ys. dur_ge (duration x) (duration z)"
      using Cons.prems(3) xy by (auto simp: descending_def intro: dur_ge_trans)
    with True xy Cons.prems(3) show ?thesis by (simp add: descending_def)
  next
    case False
    with c have yx: "dur_ge (duration y) (duration x)" by (simp add: dur_ge_total)
    have ih: "descending (qsort_insert cmp_topn x ys)"
      using Cons.IH Cons.prems by (simp add: descending_def)
    from False yx ih Cons.prems(3) show ?thesis
      by (auto simp: descending_def set_qsort_insert)
  qed
qed

lemma descending_qsort:
  "list_all (\<lambda>e. bounded (duration e)) xs \<Longrightarrow> descending (qsort cmp_topn xs)"
proof (induction xs)
  case Nil
  then show ?case by (simp add: qsort_def descending_def)
next
  case (Cons x xs)
  then have d: "descending (qsort cmp_topn xs)" by simp
  have b: "list_all (\<lambda>e. bounded (duration e)) (qsort cmp_topn xs)"
    using Cons.prems by (simp add: list_all_iff set_qsort)
  from descending_qsort_insert [OF _ b d, of x] Cons.prems show ?case
    by (simp add: qsort_def)
qed

lemma top_qsort_full:
  "length tops = nat n \<Longrightarrow> top_qsort n tops = qsort cmp_topn tops"
  by (simp add: top_qsort_def)

lemma timersub_bounded:
  assumes "in_window T a" and "in_window T b"
  shows "bounded (timersub a b)"
  using assms by (auto simp: in_window_def bounded_def timersub_def)

lemma descending_filter: "descending es \<Longrightarrow> descending (filter P es)"
  by (simp add: descending_def sorted_wrt_filter)

lemma top_inv_ranking_ok: "top_inv T i s \<Longrightarrow> ranking_ok i s"
  by (auto simp: top_inv_def ranking_ok_def occupied_def descending_filter
      intro: order_trans [OF length_filter_le])

lemma top_inv_update:
  assumes "top_inv T i s" and "bounded d" and "k < length (top_arr s)"
  shows "top_inv T i (s\<lparr>total_tv := tt, top_arr := top_qsort (topN i) ((top_arr s)[k := \<lparr>duration = d, sql = q\<rparr>]),
                        current := None\<rparr>)"
proof -
  let ?xs = "(top_arr s)[k := \<lparr>duration = d, sql = q\<rparr>]"
  have len: "length ?xs = nat (topN i)" using assms(1) by (simp add: top_inv_def)
  have b: "list_all (\<lambda>e. bounded (duration e)) ?xs"
    using assms by (auto simp: top_inv_def list_all_iff dest!: set_update_subset_insert [THEN subsetD])
  show ?thesis
    using len b descending_qsort [OF b]
    by (simp add: top_inv_def top_qsort_full length_qsort list_all_iff set_qsort)
qed

lemma first_free_less: "first_free es = Some k \<Longrightarrow> k < length es"
  by (induction es arbitrary: k) (auto split: if_splits)

lemma top_clientReply_inv:
  assumes "top_inv T i s" and "in_window T tv" and "top_clientReply i s reply tv = Inr (s', f)"
  shows "top_inv T i s'"
proof (cases "current s")
  case None
  with assms show ?thesis by (simp add: top_clientReply_def)
next
  case (Some cur)
  with assms(1) have w: "in_window T (start s)" by (simp add: top_inv_def)
  have bd: "bounded (timersub tv (start s))" using timersub_bounded [OF assms(2) w] .
  have len: "length (top_arr s) = nat (topN i)" using assms(1) by (simp add: top_inv_def)
  show ?thesis
  proof (cases "first_free (top_arr s)")
    case (Some k)
    then have "k < length (top_arr s)" by (rule first_free_less)
    from top_inv_update [OF assms(1) bd this] assms(3) \<open>current s = Some cur\<close> Some len
    show ?thesis by (auto simp: top_clientReply_def Let_def)
  next
    case None
    show ?thesis
    proof (cases "topN i - 1 < 0")
      case True
      with assms(3) \<open>current s = Some cur\<close> None len show ?thesis
        by (simp add: top_clientReply_def Let_def)
    next
      case False
      then have k: "nat (topN i - 1) < length (top_arr s)" using len by simp
      have keep: "top_inv T i (s\<lparr>total_tv := tt, current := None\<rparr>)" for tt
        using assms(1) by (simp add: top_inv_def)
      from top_inv_update [OF assms(1) bd k] keep assms(3) \<open>current s = Some cur\<close> None len False
      show ?thesis by (auto simp: top_clientReply_def Let_def split: if_splits)
    qed
  qed
qed

lemma top_routeQuery_inv:
  assumes "top_inv T i s" and "in_window T now" and "top_routeQuery x i s q now = Inr (s', f)"
  shows "top_inv T i s'"
  using assms
  by (auto simp: top_routeQuery_def top_inv_def Let_def split: if_splits option.splits sum.splits bool.splits)

lemma top_step_inv:
  assumes "top_inv T i s" and "in_window T (event_time ev)" and "top_step x i s ev = Inr (s', f)"
  shows "top_inv T i s'"
  using assms top_routeQuery_inv top_clientReply_inv
  by (cases ev) (auto simp: top_step_def)

lemma top_clientReply_total:
  assumes "top_inv T i s" and "1 \<le> topN i"
  shows "\<exists>r. top_clientReply i s reply tv = Inr r"
  using assms
  by (auto simp: top_clientReply_def top_inv_def Let_def split: option.splits)

lemma top_wanted_total:
  assumes "top_compiled i"
  shows "\<exists>b. top_wanted x i p = Inr b"
  using assms
  by (auto simp: top_wanted_def top_compiled_def regexec_t_def split: option.splits bool.splits)

lemma top_routeQuery_total:
  assumes "top_compiled i"
  shows "\<exists>r. top_routeQuery x i s q now = Inr r"
proof (cases "top_active s \<and> modutil_get_SQL x (contiguous q) \<noteq> None")
  case True
  then obtain p where p: "modutil_get_SQL x (contiguous q) = Some p" by auto
  from top_wanted_total [OF assms] obtain b where "top_wanted x i p = Inr b" by blast
  with True p show ?thesis by (cases b) (simp_all add: top_routeQuery_def Let_def)
next
  case False
  then show ?thesis by (auto simp: top_routeQuery_def Let_def)
qed

lemma top_step_total:
  assumes "top_inv T i s" and "1 \<le> topN i" and "top_compiled i"
  shows "\<exists>s' f. top_step x i s ev = Inr (s', f)"
  using top_clientReply_total [OF assms(1,2)] top_routeQuery_total [OF assms(3)]
  by (cases ev) (simp_all add: top_step_def)

lemma top_trace_inv:
  assumes "top_inv T i s" and "list_all (\<lambda>ev. in_window T (event_time ev)) evs"
    and "top_trace x i s evs = Inr tr"
  shows "list_all (\<lambda>(s', f). top_inv T i s') tr"
  using assms
proof (induction evs arbitrary: s tr)
  case Nil
  then show ?case by simp
next
  case (Cons ev evs)
  from Cons.prems(3) obtain s1 f1 tr1 where
    step: "top_step x i s ev = Inr (s1, f1)" and rest: "top_trace x i s1 evs = Inr tr1"
    and tr: "tr = (s1, f1) # tr1"
    by (auto split: sum.splits)
  have i1: "top_inv T i s1" using top_step_inv [OF Cons.prems(1) _ step] Cons.prems(2) by simp
  from Cons.IH [OF i1 _ rest] Cons.prems(2) i1 tr show ?case by simp
qed

lemma top_trace_total:
  assumes "top_inv T i s" and "list_all (\<lambda>ev. in_window T (event_time ev)) evs"
    and "1 \<le> topN i" and "top_compiled i"
  shows "\<exists>tr. top_trace x i s evs = Inr tr"
  using assms(1,2)
proof (induction evs arbitrary: s)
  case Nil
  then show ?case by simp
next
  case (Cons ev evs)
  from top_step_total [OF Cons.prems(1) assms(3,4)] obtain s1 f1 where
    step: "top_step x i s ev = Inr (s1, f1)" by blast
  have i1: "top_inv T i s1" using top_step_inv [OF Cons.prems(1) _ step] Cons.prems(2) by simp
  from Cons.IH [OF i1] Cons.prems(2) obtain tr1 where "top_trace x i s1 evs = Inr tr1" by auto
  with step show ?case by simp
qed

lemma descending_replicate:
  "descending (replicate n \<lparr>duration = \<lparr>tv_sec = 0, tv_usec = 0\<rparr>, sql = None\<rparr>)"
  by (induction n) (simp_all add: descending_def dur_ge_def)

lemma top_newSession_inv:
  assumes "top_newSession c m i0 cl t0 = Inr (i, s0)"
  shows "top_inv T i s0 \<and> topN i = topN i0 \<and> n_statements s0 = 0 \<and> current s0 = None
         \<and> total_tv s0 = \<lparr>tv_sec = 0, tv_usec = 0\<rparr>"
  using assms
  by (auto simp: top_newSession_def top_inv_def Let_def bounded_def descending_replicate list_all_iff
      split: if_splits option.splits)


text \<open>
  Claim C4. Take a session made by \<^verbatim>\<open>newSession\<close> and any sequence of \<^verbatim>\<open>routeQuery\<close> and
  \<^verbatim>\<open>clientReply\<close> calls whose clock readings lie in one window of \<open>2^30\<close> seconds. At the
  start and after every call the ranking holds at most \<open>topN\<close> statements and they stand in
  descending order of duration; in particular right after an insertion or a replacement.
  The sequence runs to its end when \<open>topN\<close> is at least 1 and the patterns were compiled.
\<close>

theorem top_ranking_bounded_and_sorted:
  assumes "top_newSession c m i0 cl t0 = Inr (i, s0)"
    and "list_all (\<lambda>ev. in_window T (event_time ev)) evs"
  shows "ranking_ok i s0
       \<and> (\<forall>tr. top_trace x i s0 evs = Inr tr \<longrightarrow> list_all (\<lambda>(s, f). ranking_ok i s) tr)
       \<and> (1 \<le> topN i \<and> top_compiled i \<longrightarrow> (\<exists>tr. top_trace x i s0 evs = Inr tr))"
proof -
  have inv: "top_inv T i s0" using top_newSession_inv [OF assms(1)] by simp
  have "list_all (\<lambda>(s, f). ranking_ok i s) tr" if "top_trace x i s0 evs = Inr tr" for tr
    using top_trace_inv [OF inv assms(2) that]
    by (auto simp: list_all_iff intro: top_inv_ranking_ok)
  with top_inv_ranking_ok [OF inv] top_trace_total [OF inv assms(2)] show ?thesis by blast
qed

lemma top_started_2:
  "top_newSession True True (test_top_instance 2 src) test_client (secs 100)
     = Inr (fst (top_started (test_top_instance 2 src)), snd (top_started (test_top_instance 2 src)))"
  by (simp add: top_started_def top_newSession_def test_top_instance_def Let_def)

theorem top_ranking_bounded_and_sorted_witness:
  "top_newSession True True (test_top_instance 2 None) test_client (secs 100)
     = Inr (top_started (test_top_instance 2 None))
   \<and> (\<exists>tr. top_trace test_ext (fst (top_started (test_top_instance 2 None)))
              (snd (top_started (test_top_instance 2 None))) test_events = Inr tr
          \<and> list_all (\<lambda>(s, f). ranking_ok (fst (top_started (test_top_instance 2 None))) s) tr)"
proof -
  let ?st = "top_started (test_top_instance 2 None)"
  have new: "top_newSession True True (test_top_instance 2 None) test_client (secs 100)
               = Inr (fst ?st, snd ?st)"
    by (rule top_started_2)
  have win: "list_all (\<lambda>ev. in_window 0 (event_time ev)) test_events"
    by (simp add: test_events_def in_window_def secs_def)
  have i: "1 \<le> topN (fst ?st) \<and> top_compiled (fst ?st)"
    by (simp add: top_started_def top_newSession_def test_top_instance_def Let_def top_compiled_def)
  from top_ranking_bounded_and_sorted [OF new win, of test_ext] i new show ?thesis by auto
qed

lemma first_free_full: "list_all (\<lambda>e. sql e \<noteq> None) es \<Longrightarrow> first_free es = None"
  by (induction es) auto


text \<open>
  Claim C6. When a statement is pending, every one of the \<open>topN\<close> slots holds a statement and
  the measured duration is not greater than any kept duration, \<^verbatim>\<open>clientReply\<close> leaves the
  array of slots as it was: it adds the duration to the total, drops the pending text and
  passes the reply on.
\<close>

theorem top_small_duration_is_discarded:
  assumes "current s = Some cur" and "length (top_arr s) = nat (topN i)" and "1 \<le> topN i"
    and "list_all (\<lambda>e. sql e \<noteq> None \<and> dur_ge (duration e) (timersub tv (start s))) (top_arr s)"
  shows "top_clientReply i s reply tv =
           Inr (s\<lparr>total_tv := timeradd (total_tv s) (timersub tv (start s)), current := None\<rparr>, reply)"
proof -
  have full: "first_free (top_arr s) = None"
    using assms(4) by (intro first_free_full) (simp add: list_all_iff)
  have k: "nat (topN i - 1) < length (top_arr s)" using assms(2,3) by simp
  then have "top_arr s ! nat (topN i - 1) \<in> set (top_arr s)" by simp
  with assms(4) have "dur_ge (duration (top_arr s ! nat (topN i - 1))) (timersub tv (start s))"
    by (simp add: list_all_iff)
  then have no: "\<not> (tv_sec (timersub tv (start s)) > tv_sec (duration (top_arr s ! nat (topN i - 1)))
       \<or> (tv_sec (timersub tv (start s)) = tv_sec (duration (top_arr s ! nat (topN i - 1)))
          \<and> tv_usec (timersub tv (start s)) > tv_usec (duration (top_arr s ! nat (topN i - 1)))))"
    by (auto simp: dur_ge_def)
  show ?thesis
    using assms(1,2,3) full no by (auto simp: top_clientReply_def Let_def)
qed

theorem top_small_duration_is_discarded_witness:
  "top_clientReply (test_top_instance 2 None) test_full_session (sql_buf ''ok'') (secs 203) =
     Inr (test_full_session\<lparr>total_tv := secs 18, current := None\<rparr>, sql_buf ''ok'')"
proof -
  have a: "current test_full_session = Some ''SELECT 4''"
    and b: "length (top_arr test_full_session) = nat (topN (test_top_instance 2 None))"
    and c: "1 \<le> topN (test_top_instance 2 None)"
    and d: "list_all (\<lambda>e. sql e \<noteq> None
               \<and> dur_ge (duration e) (timersub (secs 203) (start test_full_session)))
             (top_arr test_full_session)"
    by (simp_all add: test_full_session_def test_top_instance_def secs_def timersub_def dur_ge_def)
  from top_small_duration_is_discarded [OF a b c d, of "sql_buf ''ok''"]
  show ?thesis
    by (simp add: test_full_session_def secs_def timersub_def timeradd_def)
qed

lemma top_routeQuery_quiet:
  assumes "top_quiet s" and "top_routeQuery x i s q now = Inr (s', f)"
  shows "top_quiet s'"
  using assms
  by (auto simp: top_routeQuery_def top_quiet_def Let_def split: if_splits option.splits sum.splits bool.splits)

lemma top_clientReply_quiet:
  assumes "top_quiet s" and "top_clientReply i s reply tv = Inr (s', f)"
  shows "top_quiet s'"
  using assms
  by (auto simp: top_clientReply_def top_quiet_def Let_def split: if_splits option.splits)

lemma top_step_quiet:
  assumes "top_quiet s" and "top_step x i s ev = Inr (s', f)"
  shows "top_quiet s'"
  using assms top_routeQuery_quiet top_clientReply_quiet
  by (cases ev) (auto simp: top_step_def)

lemma top_trace_quiet:
  assumes "top_quiet s" and "top_trace x i s evs = Inr tr"
  shows "list_all (\<lambda>(s', f). top_quiet s') tr"
  using assms
proof (induction evs arbitrary: s tr)
  case Nil
  then show ?case by simp
next
  case (Cons ev evs)
  from Cons.prems(2) obtain s1 f1 tr1 where
    step: "top_step x i s ev = Inr (s1, f1)" and rest: "top_trace x i s1 evs = Inr tr1"
    and tr: "tr = (s1, f1) # tr1"
    by (auto split: sum.splits)
  have q1: "top_quiet s1" using top_step_quiet [OF Cons.prems(1) step] .
  from Cons.IH [OF q1 rest] q1 tr show ?case by simp
qed


text \<open>
  A session whose statement counter is 0 is closed with a report that states 1 statement
  and takes 1000 as the divisor of the average.
\<close>

lemma top_report_without_statements:
  assumes "top_newSession c m i0 cl t0 = Inr (i, s0)" and "top_trace x i s0 evs = Inr tr"
    and "s \<in> set (s0 # map fst tr)" and "n_statements s = 0"
  shows "\<exists>rep. top_closeSession True i s now fs =
                  (s\<lparr>disconnect := now\<rparr>, fs(top_filename s \<mapsto> rep))
             \<and> rep_statements rep = 1 \<and> rep_average_divisor rep = 1000
             \<and> rep_average_dividend rep = 0 \<and> rep_total rep = (0, 0)"
proof -
  have q0: "top_quiet s0"
    using top_newSession_inv [OF assms(1)] by (simp add: top_quiet_def)
  have "top_quiet s"
    using assms(3) q0 top_trace_quiet [OF q0 assms(2)] by (auto simp: list_all_iff)
  with assms(4) have "total_tv s = \<lparr>tv_sec = 0, tv_usec = 0\<rparr>" by (simp add: top_quiet_def)
  with assms(4) show ?thesis
    by (auto simp: top_closeSession_def Let_def millis_def c_div_def wrap_int_def)
qed

lemma top_routeQuery_inactive:
  "\<not> top_active s \<Longrightarrow> top_routeQuery x i s queue now = Inr (s, queue)"
  by (simp add: top_routeQuery_def)

lemma top_clientReply_idle:
  "current s = None \<Longrightarrow> top_clientReply i s reply tv = Inr (s, reply)"
  by (simp add: top_clientReply_def)

lemma top_inactive_trace:
  assumes "\<not> top_active s" and "current s = None"
  shows "top_trace x i s evs = Inr (map (\<lambda>ev. (s, event_buffer ev)) evs)"
proof (induction evs)
  case Nil
  then show ?case by simp
next
  case (Cons ev evs)
  have "top_step x i s ev = Inr (s, event_buffer ev)"
    using assms by (cases ev) (simp_all add: top_step_def top_routeQuery_inactive top_clientReply_idle)
  with Cons show ?case by simp
qed






lemma top_newSession_filename:
  assumes "top_newSession c m i0 cl t0 = Inr (i, s)"
  shows "\<exists>base. top_filebase i0 = Some base
           \<and> top_filename s = base @ ''.'' @ show_int (top_sessions i0 + 1)
           \<and> top_sessions i = top_sessions i0 + 1"
  using assms
  by (auto simp: top_newSession_def Let_def split: if_splits option.splits)


text \<open>
  Claim C2 says that the first session of an instance gets the file index 0. For the top-N
  filter the name is written a second time after the counter has moved: the first session
  of an instance with file base \<^verbatim>\<open>/tmp/top\<close> is named \<^verbatim>\<open>/tmp/top.1\<close>. (The logger's first
  session is named with index 0: \<open>qla_newSession_filename\<close>.)
\<close>

theorem top_first_session_file_index:
  "map_sum id (\<lambda>(i, s). (top_sessions i, top_filename s))
     (top_newSession True True (test_top_instance 10 None) test_client (secs 100))
   = Inr (1, ''/tmp/top.1'')"
  by (simp add: top_newSession_def test_top_instance_def Let_def show_int_def digits.simps)


text \<open>
  Claim C8 says that no operation of an inactive session has a side effect of the filter.
  \<^verbatim>\<open>closeSession\<close> of the top-N filter does not look at the flag: a session from
  \<^verbatim>\<open>10.0.0.2\<close> of an instance restricted to the source \<^verbatim>\<open>10.0.0.1\<close> is inactive, and closing
  it writes the report to its file. (\<^verbatim>\<open>routeQuery\<close> and \<^verbatim>\<open>clientReply\<close> of an inactive session
  only pass the buffer on, \<open>top_inactive_trace\<close>, and the logger neither opens nor writes
  a file, \<open>qla_newSession_inactive\<close>, \<open>qla_routeQuery_inactive\<close>, \<open>qla_closeSession_inactive\<close>.)
\<close>

theorem top_inactive_session_report:
  "(case top_newSession True True (test_top_instance 2 (Some ''10.0.0.1'')) test_client (secs 100) of
      Inl e \<Rightarrow> None
    | Inr (i, s) \<Rightarrow>
        Some (top_active s, snd (top_closeSession True i s (secs 160) Map.empty) (top_filename s)))
   = Some (False,
       Some \<lparr>rep_topN = 2, rep_rows = [], rep_started = 100,
             rep_clientHost = Some ''10.0.0.2'', rep_userName = Some ''bob'',
             rep_statements = 1, rep_total = (0, 0), rep_average_dividend = 0,
             rep_average_divisor = 1000, rep_connection_time = (60, 0)\<rparr>)"
  by (simp add: top_newSession_def test_top_instance_def test_client_def Let_def show_int_def
      digits.simps differs_def top_closeSession_def secs_def timersub_def millis_def c_div_def
      wrap_int_def numeral_2_eq_2)



text \<open>
  A run with ten slots and twelve statements that take 5, 1, 9, 2, 8, 3, 7, 4, 6, 0.5, 10
  and 0.1 seconds: the report lists the ten longest, longest first.
\<close>

lemma top_scenario_twelve_statements:
  "map_sum id (\<lambda>tr. top_rows (top_arr (fst (last tr))))
     (top_trace test_ext (fst (top_started (test_top_instance 10 None)))
        (snd (top_started (test_top_instance 10 None))) twelve)
   = Inr [(10000, ''q11''), (9000, ''q3''), (8000, ''q5''), (7000, ''q7''), (6000, ''q9''),
          (5000, ''q1''), (4000, ''q8''), (3000, ''q6''), (2000, ''q4''), (1000, ''q2'')]"
  by code_simp


section \<open>Properties of the query logger\<close>

lemma payload_contiguous: "payload (contiguous q) = payload q"
  by (simp add: contiguous_def gwbuf_make_contiguous_def payload_def)

lemma contiguous_single: "\<not> has_next q \<Longrightarrow> contiguous q = q"
  by (simp add: contiguous_def)


text \<open>
  Claim C7. For an active session with an open stream, and a request whose SQL text matches
  the match pattern (or none is set) and does not match the exclude pattern (or none is
  set), \<^verbatim>\<open>routeQuery\<close> appends to the session's file the one line
  \<open>timestamp,user@remote,trim (squeeze_whitespace sql)\<close> and a newline, and passes the request
  downstream with its bytes and hints unchanged (the very same buffer when the request is a
  single buffer, the contiguous copy of the chain otherwise).
\<close>

theorem qla_logs_one_line:
  assumes "qla_active s" and "qla_fp s = Some fp"
    and "modutil_get_SQL x (contiguous q) = Some stmt"
    and "qla_match i = None \<or> (\<exists>r. qla_re i = Some r \<and> regexec x r stmt = 0)"
    and "qla_nomatch i = None \<or> (\<exists>r. qla_nore i = Some r \<and> regexec x r stmt \<noteq> 0)"
    and "qla_user s = Some u" and "qla_remote s = Some a"
  shows "qla_routeQuery x i s q tv fs =
           Inr (fs(fp \<mapsto> file_text fs fp @ strftime_FT x (tv_sec tv) @ '','' @ u @ ''@'' @ a @ '',''
                          @ trim x (squeeze_whitespace x stmt) @ [CHR 0x0A]),
                contiguous q)
       \<and> payload (contiguous q) = payload q \<and> gw_hint (contiguous q) = gw_hint q
       \<and> (\<not> has_next q \<longrightarrow> contiguous q = q)"
proof -
  have w: "qla_wanted x i stmt = Inr True"
    using assms(4,5) by (auto simp: qla_wanted_def regexec_t_def split: option.splits)
  have "qla_routeQuery x i s q tv fs = Inr (fprintf fp (qla_line x s tv stmt) fs, contiguous q)"
    using assms(1,2,3) w by (simp add: qla_routeQuery_def Let_def)
  then show ?thesis
    using assms(6,7)
    by (simp add: fprintf_def qla_line_def percent_s_def payload_contiguous contiguous_single
        gw_hint_contiguous)
qed

theorem qla_logs_one_line_witness:
  "qla_routeQuery test_ext test_qla_instance test_qla_session (sql_buf ''SELECT 1'') (secs 100)
      [''/tmp/qla.0'' \<mapsto> []] =
     Inr ([''/tmp/qla.0'' \<mapsto> ''2016-10-10 12:00:00,bob@10.0.0.2,SELECT 1'' @ [CHR 0x0A]],
          sql_buf ''SELECT 1'')"
proof -
  have c: "contiguous (sql_buf ''SELECT 1'') = sql_buf ''SELECT 1''"
    by (simp add: contiguous_def has_next_def sql_buf_def)
  have a: "qla_active test_qla_session" and b: "qla_fp test_qla_session = Some ''/tmp/qla.0''"
    and u: "qla_user test_qla_session = Some ''bob''"
    and r: "qla_remote test_qla_session = Some ''10.0.0.2''"
    by (simp_all add: test_qla_session_def)
  have g: "modutil_get_SQL test_ext (contiguous (sql_buf ''SELECT 1'')) = Some ''SELECT 1''"
    unfolding c by (simp add: test_ext_def sql_buf_def payload_def)
  have m: "qla_match test_qla_instance = None
           \<or> (\<exists>r. qla_re test_qla_instance = Some r \<and> regexec test_ext r ''SELECT 1'' = 0)"
    by (simp add: test_qla_instance_def test_ext_def)
  have x: "qla_nomatch test_qla_instance = None
           \<or> (\<exists>r. qla_nore test_qla_instance = Some r \<and> regexec test_ext r ''SELECT 1'' \<noteq> 0)"
    by (simp add: test_qla_instance_def test_ext_def)
  from qla_logs_one_line [OF a b g m x u r, of "secs 100" "[''/tmp/qla.0'' \<mapsto> []]"]
  show ?thesis
    by (simp add: c file_text_def test_ext_def secs_def)
qed

lemma qla_routeQuery_forwards:
  assumes "qla_routeQuery x i s q tv fs = Inr (fs', f)"
  shows "payload f = payload q \<and> gw_hint f = gw_hint q"
  using assms
  by (auto simp: qla_routeQuery_def Let_def payload_contiguous gw_hint_contiguous
      split: if_splits option.splits sum.splits bool.splits)

lemma qla_routeQuery_inactive:
  "\<not> qla_active s \<Longrightarrow> qla_routeQuery x i s q tv fs = Inr (fs, q)"
  by (simp add: qla_routeQuery_def)

lemma qla_newSession_inactive:
  assumes "qla_newSession c m f i cl fs = (i', fs', Inr s)" and "\<not> qla_active s"
  shows "fs' = fs \<and> qla_fp s = None"
  using assms
  by (auto simp: qla_newSession_def Let_def split: if_splits option.splits)

lemma qla_closeSession_inactive:
  "\<not> qla_active s \<Longrightarrow> qla_closeSession s fs = (False, fs)"
  by (simp add: qla_closeSession_def)

lemma qla_newSession_filename:
  assumes "qla_newSession c m f i cl fs = (i', fs', Inr s)"
  shows "\<exists>base. qla_filebase i = Some base
           \<and> qla_filename s = base @ ''.'' @ show_int (qla_sessions i)
           \<and> qla_sessions i' = qla_sessions i + 1"
  using assms
  by (auto simp: qla_newSession_def Let_def split: if_splits option.splits)


section \<open>Properties of createInstance\<close>

lemma regex_options_fst:
  "fst (regex_options os (c, e)) = fst (regex_options os (c, False))"
  by (induction os arbitrary: c e) (auto simp: regex_option_def)

lemma regex_options_snd:
  "e \<Longrightarrow> snd (regex_options os (c, e))"
  by (induction os arbitrary: c e) (auto simp: regex_option_def)

lemma owned_str_simps [simp]:
  "owned_str None = {#}" "owned_str (Some v) = {#MString v#}"
  by (simp_all add: owned_str_def)

lemma owned_rx_simps [simp]:
  "owned_rx f None r = {#}" "owned_rx f p None = {#}" "owned_rx f (Some v) (Some c) = {#MRegex f#}"
  by (simp_all add: owned_rx_def)

lemma qla_param_owned:
  assumes "mset h = qla_owned i" and "qla_re i = None" and "qla_nore i = None"
    and "qla_unset (n # names) i" and "n \<notin> set names"
    and "qla_param std (n, v) (i, e, h) = (i', e', h')"
  shows "mset h' = qla_owned i' \<and> qla_re i' = None \<and> qla_nore i' = None \<and> qla_unset names i'"
proof -
  consider "n = ''match''" | "n = ''exclude''" | "n = ''source''" | "n = ''user''"
    | "n = ''filebase''" | "\<not> qla_known n"
    by (auto simp: qla_known_def)
  then show ?thesis
  proof cases
    case 1
    with assms show ?thesis
      by (auto simp: qla_param_def qla_owned_def qla_unset_def mxs_strdup_def)
  next
    case 2
    with assms show ?thesis
      by (auto simp: qla_param_def qla_owned_def qla_unset_def mxs_strdup_def)
  next
    case 3
    with assms show ?thesis
      by (auto simp: qla_param_def qla_owned_def qla_unset_def mxs_strdup_def)
  next
    case 4
    with assms show ?thesis
      by (auto simp: qla_param_def qla_owned_def qla_unset_def mxs_strdup_def)
  next
    case 5
    with assms show ?thesis
      by (auto simp: qla_param_def qla_owned_def qla_unset_def mxs_strdup_def)
  next
    case 6
    with assms show ?thesis
      by (auto simp: qla_param_def qla_known_def qla_unset_def split: if_splits)
  qed
qed

lemma qla_params_owned:
  assumes "distinct (map fst ps)" and "mset h = qla_owned i" and "qla_re i = None"
    and "qla_nore i = None" and "qla_unset (map fst ps) i"
    and "qla_params std ps (i, e, h) = (i', e', h')"
  shows "mset h' = qla_owned i' \<and> qla_re i' = None \<and> qla_nore i' = None"
  using assms
proof (induction ps arbitrary: i e h)
  case Nil
  then show ?case by simp
next
  case (Cons p ps)
  obtain n v where p: "p = (n, v)" by (cases p)
  obtain i1 e1 h1 where st: "qla_param std (n, v) (i, e, h) = (i1, e1, h1)" by (metis prod_cases3)
  have d: "distinct (map fst ps)" and nin: "n \<notin> set (map fst ps)" using Cons.prems(1) p by simp_all
  have u: "qla_unset (n # map fst ps) i" using Cons.prems(5) p by simp
  note s1 = qla_param_owned [OF Cons.prems(2,3,4) u nin st]
  have run: "qla_params std ps (i1, e1, h1) = (i', e', h')" using Cons.prems(6) p st by simp
  from s1 have a: "mset h1 = qla_owned i1" and b: "qla_re i1 = None" and c: "qla_nore i1 = None"
    and u1: "qla_unset (map fst ps) i1" by simp_all
  show ?case using Cons.IH [OF d a b c u1 run] .
qed

lemma qla_param_fields:
  assumes "qla_param std (n, v) (i, e, h) = (i', e', h')"
  shows "qla_match i' = (if n = ''match'' then Some v else qla_match i)
       \<and> qla_nomatch i' = (if n = ''exclude'' then Some v else qla_nomatch i)
       \<and> qla_filebase i' = (if n = ''filebase'' then Some v else qla_filebase i)
       \<and> e' = (e \<or> (\<not> qla_known n \<and> \<not> std n))"
  using assms by (auto simp: qla_param_def qla_known_def split: if_splits)

lemma qla_params_fields:
  assumes "distinct (map fst ps)" and "qla_params std ps (i, e, h) = (i', e', h')"
  shows "qla_match i' = (case map_of ps ''match'' of None \<Rightarrow> qla_match i | Some v \<Rightarrow> Some v)
       \<and> qla_nomatch i' = (case map_of ps ''exclude'' of None \<Rightarrow> qla_nomatch i | Some v \<Rightarrow> Some v)
       \<and> qla_filebase i' = (case map_of ps ''filebase'' of None \<Rightarrow> qla_filebase i | Some v \<Rightarrow> Some v)
       \<and> e' = (e \<or> list_ex (\<lambda>n. \<not> qla_known n \<and> \<not> std n) (map fst ps))"
  using assms
proof (induction ps arbitrary: i e h)
  case Nil
  then show ?case by simp
next
  case (Cons p ps)
  obtain n v where p: "p = (n, v)" by (cases p)
  obtain i1 e1 h1 where st: "qla_param std (n, v) (i, e, h) = (i1, e1, h1)" by (metis prod_cases3)
  have d: "distinct (map fst ps)" and nin: "n \<notin> set (map fst ps)" using Cons.prems(1) p by simp_all
  have mo: "map_of ps n = None" using nin by (simp add: map_of_eq_None_iff)
  have run: "qla_params std ps (i1, e1, h1) = (i', e', h')" using Cons.prems(2) p st by simp
  note ih = Cons.IH [OF d run]
  note f = qla_param_fields [OF st]
  have m: "qla_match i' = (case map_of (p # ps) ''match'' of None \<Rightarrow> qla_match i | Some v \<Rightarrow> Some v)"
    using ih f p mo by (cases "n = ''match''") (auto split: option.splits)
  have x: "qla_nomatch i' = (case map_of (p # ps) ''exclude'' of None \<Rightarrow> qla_nomatch i | Some v \<Rightarrow> Some v)"
    using ih f p mo by (cases "n = ''exclude''") (auto split: option.splits)
  have b: "qla_filebase i' = (case map_of (p # ps) ''filebase'' of None \<Rightarrow> qla_filebase i | Some v \<Rightarrow> Some v)"
    using ih f p mo by (cases "n = ''filebase''") (auto split: option.splits)
  have er: "e' = (e \<or> list_ex (\<lambda>n. \<not> qla_known n \<and> \<not> std n) (map fst (p # ps)))"
    using ih f p by auto
  from m x b er show ?case by blast
qed

lemma qla_compile_match_owned:
  assumes "mset h = qla_owned i" and "qla_re i = None"
    and "qla_compile_match regcomp cf (i, e, h) = (i', e', h')"
  shows "mset h' = qla_owned i' \<and> qla_nore i' = qla_nore i \<and> qla_nomatch i' = qla_nomatch i
       \<and> e' = (e \<or> (case qla_match i of None \<Rightarrow> False | Some p \<Rightarrow> regcomp p cf = None))"
proof (cases "qla_match i")
  case None
  with assms show ?thesis by (auto simp: qla_compile_match_def)
next
  case (Some p)
  show ?thesis
  proof (cases "regcomp p cf")
    case None
    with Some assms show ?thesis
      by (auto simp: qla_compile_match_def qla_owned_def mxs_free_def)
  next
    case (Some r)
    with \<open>qla_match i = Some p\<close> assms show ?thesis
      by (auto simp: qla_compile_match_def qla_owned_def)
  qed
qed

lemma qla_compile_nomatch_owned:
  assumes "mset h = qla_owned i" and "qla_nore i = None"
    and "qla_compile_nomatch regcomp cf (i, e, h) = (i', e', h')"
  shows "mset h' = qla_owned i'
       \<and> e' = (e \<or> (case qla_nomatch i of None \<Rightarrow> False | Some p \<Rightarrow> regcomp p cf = None))"
proof (cases "qla_nomatch i")
  case None
  with assms show ?thesis by (auto simp: qla_compile_nomatch_def)
next
  case (Some p)
  show ?thesis
  proof (cases "regcomp p cf")
    case None
    with Some assms show ?thesis
      by (auto simp: qla_compile_nomatch_def qla_owned_def mxs_free_def)
  next
    case (Some r)
    with \<open>qla_nomatch i = Some p\<close> assms show ?thesis
      by (auto simp: qla_compile_nomatch_def qla_owned_def)
  qed
qed

lemma mset_mxs_free: "mset (mxs_free p h) = mset h - owned_str p"
  by (cases p) (simp_all add: mxs_free_def)

lemma mset_regfree: "mset (regfree f h) = mset h - {#MRegex f#}"
  by (simp add: regfree_def)

lemma qla_release_all:
  assumes "mset h = qla_owned i"
  shows "qla_release i h = []"
proof -
  have "mset (qla_release i h) = {#}"
    using assms
    by (cases "qla_match i"; cases "qla_re i"; cases "qla_nomatch i"; cases "qla_nore i")
       (simp_all add: qla_release_def Let_def mset_mxs_free mset_regfree qla_owned_def)
  then show ?thesis by simp
qed

theorem qla_createInstance_fails:
  assumes "distinct (map fst params)" and "qla_config_error std regcomp options params"
  shows "qla_createInstance std regcomp malloc_ok options params = (None, [])"
proof (cases malloc_ok)
  case False
  then show ?thesis by (simp add: qla_createInstance_def)
next
  case True
  let ?i0 = "\<lparr>qla_sessions = 0, qla_filebase = None, qla_source = None, qla_userName = None,
               qla_match = None, qla_re = None, qla_nomatch = None, qla_nore = (None :: 'a option)\<rparr>"
  obtain i1 e1 h1 where l: "qla_params std params (?i0, False, [MInstance]) = (i1, e1, h1)"
    by (metis prod_cases3)
  define cf where "cf = cflags_of options"
  obtain e2 where o: "regex_options options (REG_ICASE, e1) = (cf, e2)"
    using regex_options_fst [of options REG_ICASE e1]
    by (cases "regex_options options (REG_ICASE, e1)") (simp add: cflags_of_def cf_def)
  let ?e3 = "if qla_filebase i1 = None then True else e2"
  obtain i2 e4 h2 where m: "qla_compile_match regcomp cf (i1\<lparr>qla_sessions := 0\<rparr>, ?e3, h1) = (i2, e4, h2)"
    by (metis prod_cases3)
  obtain i3 e5 h3 where x: "qla_compile_nomatch regcomp cf (i2, e4, h2) = (i3, e5, h3)"
    by (metis prod_cases3)
  note cf = cf_def [symmetric]
  have e12: "e1 \<Longrightarrow> e2" using o regex_options_snd [of e1 options REG_ICASE] by simp
  have own0: "mset [MInstance] = qla_owned ?i0" by (simp add: qla_owned_def)
  have own1: "mset h1 = qla_owned i1 \<and> qla_re i1 = None \<and> qla_nore i1 = None"
    by (rule qla_params_owned [OF assms(1) own0 _ _ _ l]) (simp_all add: qla_unset_def)
  have f1: "qla_match i1 = map_of params ''match''" "qla_nomatch i1 = map_of params ''exclude''"
    "qla_filebase i1 = map_of params ''filebase''"
    "e1 = list_ex (\<lambda>n. \<not> qla_known n \<and> \<not> std n) (map fst params)"
    using qla_params_fields [OF assms(1) l] by (auto split: option.splits)
  have own1': "mset h1 = qla_owned (i1\<lparr>qla_sessions := 0\<rparr>)" using own1 by (simp add: qla_owned_def)
  note c1 = qla_compile_match_owned [OF own1' _ m]
  have own2: "mset h2 = qla_owned i2" and nore2: "qla_nore i2 = None"
    and nm2: "qla_nomatch i2 = map_of params ''exclude''"
    and e4: "e4 = (?e3 \<or> fails_to_compile regcomp options (map_of params ''match''))"
    using c1 own1 f1 cf by (auto simp: fails_to_compile_def split: option.splits)
  note c2 = qla_compile_nomatch_owned [OF own2 nore2 x]
  have own3: "mset h3 = qla_owned i3"
    and e5: "e5 = (e4 \<or> fails_to_compile regcomp options (map_of params ''exclude''))"
    using c2 nm2 cf by (auto simp: fails_to_compile_def split: option.splits)
  have "e5" using assms(2) e5 e4 f1 e12 by (auto simp: qla_config_error_def)
  then show ?thesis
    using True l o m x qla_release_all [OF own3] by (simp add: qla_createInstance_def)
qed

lemma top_param_owned:
  assumes "mset h = top_owned i" and "top_re i = None" and "top_exre i = None"
    and "top_unset (n # names) i" and "n \<notin> set names"
    and "top_param std (n, v) (i, e, h) = (i', e', h')"
  shows "mset h' = top_owned i' \<and> top_re i' = None \<and> top_exre i' = None \<and> top_unset names i'"
proof -
  consider "n = ''match''" | "n = ''exclude''" | "n = ''source''" | "n = ''user''"
    | "n = ''filebase''" | "n = ''count'' \<or> \<not> top_known n"
    by (auto simp: top_known_def)
  then show ?thesis
  proof cases
    case 1
    with assms show ?thesis
      by (auto simp: top_param_def top_owned_def top_unset_def mxs_strdup_def)
  next
    case 2
    with assms show ?thesis
      by (auto simp: top_param_def top_owned_def top_unset_def mxs_strdup_def)
  next
    case 3
    with assms show ?thesis
      by (auto simp: top_param_def top_owned_def top_unset_def mxs_strdup_def)
  next
    case 4
    with assms show ?thesis
      by (auto simp: top_param_def top_owned_def top_unset_def mxs_strdup_def)
  next
    case 5
    with assms show ?thesis
      by (auto simp: top_param_def top_owned_def top_unset_def mxs_strdup_def)
  next
    case 6
    with assms show ?thesis
      by (auto simp: top_param_def top_known_def top_unset_def top_owned_def split: if_splits)
  qed
qed

lemma top_params_owned:
  assumes "distinct (map fst ps)" and "mset h = top_owned i" and "top_re i = None"
    and "top_exre i = None" and "top_unset (map fst ps) i"
    and "top_params std ps (i, e, h) = (i', e', h')"
  shows "mset h' = top_owned i' \<and> top_re i' = None \<and> top_exre i' = None"
  using assms
proof (induction ps arbitrary: i e h)
  case Nil
  then show ?case by simp
next
  case (Cons p ps)
  obtain n v where p: "p = (n, v)" by (cases p)
  obtain i1 e1 h1 where st: "top_param std (n, v) (i, e, h) = (i1, e1, h1)" by (metis prod_cases3)
  have d: "distinct (map fst ps)" and nin: "n \<notin> set (map fst ps)" using Cons.prems(1) p by simp_all
  have u: "top_unset (n # map fst ps) i" using Cons.prems(5) p by simp
  note s1 = top_param_owned [OF Cons.prems(2,3,4) u nin st]
  have run: "top_params std ps (i1, e1, h1) = (i', e', h')" using Cons.prems(6) p st by simp
  from s1 have a: "mset h1 = top_owned i1" and b: "top_re i1 = None" and c: "top_exre i1 = None"
    and u1: "top_unset (map fst ps) i1" by simp_all
  show ?case using Cons.IH [OF d a b c u1 run] .
qed

lemma top_param_fields:
  assumes "top_param std (n, v) (i, e, h) = (i', e', h')"
  shows "top_match i' = (if n = ''match'' then Some v else top_match i)
       \<and> top_exclude i' = (if n = ''exclude'' then Some v else top_exclude i)
       \<and> top_filebase i' = (if n = ''filebase'' then Some v else top_filebase i)
       \<and> e' = (e \<or> (\<not> top_known n \<and> \<not> std n))"
  using assms by (auto simp: top_param_def top_known_def split: if_splits)

lemma top_params_fields:
  assumes "distinct (map fst ps)" and "top_params std ps (i, e, h) = (i', e', h')"
  shows "top_match i' = (case map_of ps ''match'' of None \<Rightarrow> top_match i | Some v \<Rightarrow> Some v)
       \<and> top_exclude i' = (case map_of ps ''exclude'' of None \<Rightarrow> top_exclude i | Some v \<Rightarrow> Some v)
       \<and> top_filebase i' = (case map_of ps ''filebase'' of None \<Rightarrow> top_filebase i | Some v \<Rightarrow> Some v)
       \<and> e' = (e \<or> list_ex (\<lambda>n. \<not> top_known n \<and> \<not> std n) (map fst ps))"
  using assms
proof (induction ps arbitrary: i e h)
  case Nil
  then show ?case by simp
next
  case (Cons p ps)
  obtain n v where p: "p = (n, v)" by (cases p)
  obtain i1 e1 h1 where st: "top_param std (n, v) (i, e, h) = (i1, e1, h1)" by (metis prod_cases3)
  have d: "distinct (map fst ps)" and nin: "n \<notin> set (map fst ps)" using Cons.prems(1) p by simp_all
  have mo: "map_of ps n = None" using nin by (simp add: map_of_eq_None_iff)
  have run: "top_params std ps (i1, e1, h1) = (i', e', h')" using Cons.prems(2) p st by simp
  note ih = Cons.IH [OF d run]
  note f = top_param_fields [OF st]
  have m: "top_match i' = (case map_of (p # ps) ''match'' of None \<Rightarrow> top_match i | Some v \<Rightarrow> Some v)"
    using ih f p mo by (cases "n = ''match''") (auto split: option.splits)
  have x: "top_exclude i' = (case map_of (p # ps) ''exclude'' of None \<Rightarrow> top_exclude i | Some v \<Rightarrow> Some v)"
    using ih f p mo by (cases "n = ''exclude''") (auto split: option.splits)
  have b: "top_filebase i' = (case map_of (p # ps) ''filebase'' of None \<Rightarrow> top_filebase i | Some v \<Rightarrow> Some v)"
    using ih f p mo by (cases "n = ''filebase''") (auto split: option.splits)
  have er: "e' = (e \<or> list_ex (\<lambda>n. \<not> top_known n \<and> \<not> std n) (map fst (p # ps)))"
    using ih f p by auto
  from m x b er show ?case by blast
qed

lemma MRegex_owned_str: "MRegex f \<notin># owned_str p"
  by (cases p) simp_all

lemma MRegex_owned_rx: "f \<noteq> g \<Longrightarrow> MRegex f \<notin># owned_rx g p r"
  by (simp add: owned_rx_def)

lemma regfree_absent:
  assumes "MRegex f \<notin># mset h"
  shows "regfree f h = h"
  using assms by (simp add: regfree_def remove1_idem)

lemma top_regfree_re:
  assumes "mset h = top_owned i" and "top_re i = None"
  shows "regfree ''re'' h = h"
  by (rule regfree_absent) (simp add: assms top_owned_def MRegex_owned_str MRegex_owned_rx)

lemma top_regfree_exre:
  assumes "mset h = top_owned i" and "top_exre i = None"
  shows "regfree ''exre'' h = h"
  by (rule regfree_absent) (simp add: assms top_owned_def MRegex_owned_str MRegex_owned_rx)

lemma top_compile_match_owned:
  assumes "mset h = top_owned i" and "top_re i = None"
    and "top_compile_match regcomp cf (i, e, h) = (i', e', h')"
  shows "mset h' = top_owned i' \<and> top_exre i' = top_exre i \<and> top_exclude i' = top_exclude i
       \<and> e' = (e \<or> (case top_match i of None \<Rightarrow> False | Some p \<Rightarrow> regcomp p cf = None))"
proof (cases "top_match i")
  case None
  with assms show ?thesis by (auto simp: top_compile_match_def)
next
  case (Some p)
  show ?thesis
  proof (cases "regcomp p cf")
    case None
    with Some assms show ?thesis
      using top_regfree_re [OF assms(1,2)]
      by (auto simp: top_compile_match_def top_owned_def mxs_free_def)
  next
    case (Some r)
    with \<open>top_match i = Some p\<close> assms show ?thesis
      by (auto simp: top_compile_match_def top_owned_def)
  qed
qed

lemma top_compile_exclude_owned:
  assumes "mset h = top_owned i" and "top_exre i = None"
    and "top_compile_exclude regcomp cf (i, e, h) = (i', e', h')"
  shows "mset h' = top_owned i'
       \<and> e' = (e \<or> (case top_exclude i of None \<Rightarrow> False | Some p \<Rightarrow> regcomp p cf = None))"
proof (cases "top_exclude i")
  case None
  with assms show ?thesis by (auto simp: top_compile_exclude_def)
next
  case (Some p)
  show ?thesis
  proof (cases "regcomp p cf")
    case None
    with Some assms show ?thesis
      using top_regfree_exre [OF assms(1,2)]
      by (auto simp: top_compile_exclude_def top_owned_def mxs_free_def)
  next
    case (Some r)
    with \<open>top_exclude i = Some p\<close> assms show ?thesis
      by (auto simp: top_compile_exclude_def top_owned_def)
  qed
qed

lemma top_release_all:
  assumes "mset h = top_owned i"
  shows "top_release i h = []"
proof -
  have "mset (top_release i h) = {#}"
    using assms
    by (cases "top_match i"; cases "top_re i"; cases "top_exclude i"; cases "top_exre i")
       (simp_all add: top_release_def Let_def mset_mxs_free mset_regfree top_owned_def)
  then show ?thesis by simp
qed

theorem top_createInstance_fails:
  assumes "distinct (map fst params)" and "top_config_error std regcomp options params"
  shows "top_createInstance std regcomp malloc_ok options params = (None, [])"
proof (cases malloc_ok)
  case False
  then show ?thesis by (simp add: top_createInstance_def)
next
  case True
  let ?i0 = "\<lparr>top_sessions = 0, topN = 10, top_filebase = None, top_source = None,
               top_user = None, top_match = None, top_re = None, top_exclude = None,
               top_exre = (None :: 'a option)\<rparr>"
  obtain i1 e1 h1 where l: "top_params std params (?i0, False, [MInstance]) = (i1, e1, h1)"
    by (metis prod_cases3)
  define cf where "cf = cflags_of options"
  obtain e2 where o: "regex_options options (REG_ICASE, e1) = (cf, e2)"
    using regex_options_fst [of options REG_ICASE e1]
    by (cases "regex_options options (REG_ICASE, e1)") (simp add: cflags_of_def cf_def)
  let ?e3 = "if top_filebase i1 = None then True else e2"
  obtain i2 e4 h2 where m: "top_compile_match regcomp cf (i1\<lparr>top_sessions := 0\<rparr>, ?e3, h1) = (i2, e4, h2)"
    by (metis prod_cases3)
  obtain i3 e5 h3 where x: "top_compile_exclude regcomp cf (i2, e4, h2) = (i3, e5, h3)"
    by (metis prod_cases3)
  note cf = cf_def [symmetric]
  have e12: "e1 \<Longrightarrow> e2" using o regex_options_snd [of e1 options REG_ICASE] by simp
  have own0: "mset [MInstance] = top_owned ?i0" by (simp add: top_owned_def)
  have own1: "mset h1 = top_owned i1 \<and> top_re i1 = None \<and> top_exre i1 = None"
    by (rule top_params_owned [OF assms(1) own0 _ _ _ l]) (simp_all add: top_unset_def)
  have f1: "top_match i1 = map_of params ''match''" "top_exclude i1 = map_of params ''exclude''"
    "top_filebase i1 = map_of params ''filebase''"
    "e1 = list_ex (\<lambda>n. \<not> top_known n \<and> \<not> std n) (map fst params)"
    using top_params_fields [OF assms(1) l] by (auto split: option.splits)
  have own1': "mset h1 = top_owned (i1\<lparr>top_sessions := 0\<rparr>)" using own1 by (simp add: top_owned_def)
  note c1 = top_compile_match_owned [OF own1' _ m]
  have own2: "mset h2 = top_owned i2" and nore2: "top_exre i2 = None"
    and nm2: "top_exclude i2 = map_of params ''exclude''"
    and e4: "e4 = (?e3 \<or> fails_to_compile regcomp options (map_of params ''match''))"
    using c1 own1 f1 cf by (auto simp: fails_to_compile_def split: option.splits)
  note c2 = top_compile_exclude_owned [OF own2 nore2 x]
  have own3: "mset h3 = top_owned i3"
    and e5: "e5 = (e4 \<or> fails_to_compile regcomp options (map_of params ''exclude''))"
    using c2 nm2 cf by (auto simp: fails_to_compile_def split: option.splits)
  have "e5" using assms(2) e5 e4 f1 e12 by (auto simp: top_config_error_def)
  then show ?thesis
    using True l o m x top_release_all [OF own3] by (simp add: top_createInstance_def)
qed


text \<open>
  The logger and the top-N filter, with no parameter name given twice: when a match or
  exclude pattern does not compile, or the filebase is missing, or a parameter is neither
  known to the filter nor standard, \<^verbatim>\<open>createInstance\<close> returns no instance and nothing it
  allocated is left on the heap.
\<close>

theorem createInstance_config_error_fails:
  assumes "distinct (map fst params)"
  shows "(qla_config_error std regcomp options params \<longrightarrow>
            qla_createInstance std regcomp malloc_ok options params = (None, []))
       \<and> (top_config_error std regcomp options params \<longrightarrow>
            top_createInstance std regcomp malloc_ok options params = (None, []))"
  using assms qla_createInstance_fails top_createInstance_fails by blast

theorem createInstance_config_error_fails_witness:
  "qla_createInstance test_std test_regcomp True []
      [(''filebase'', ''/tmp/q''), (''match'', ''[a''), (''bogus'', ''1'')] = (None, [])
   \<and> top_createInstance test_std test_regcomp True []
      [(''filebase'', ''/tmp/q''), (''match'', ''[a''), (''bogus'', ''1'')] = (None, [])"
proof -
  have d: "distinct (map fst [(''filebase'', ''/tmp/q''), (''match'', ''[a''), (''bogus'', ''1'')])"
    by simp
  have q: "qla_config_error test_std test_regcomp []
             [(''filebase'', ''/tmp/q''), (''match'', ''[a''), (''bogus'', ''1'')]"
    by (simp add: qla_config_error_def fails_to_compile_def test_regcomp_def)
  have t: "top_config_error test_std test_regcomp []
             [(''filebase'', ''/tmp/q''), (''match'', ''[a''), (''bogus'', ''1'')]"
    by (simp add: top_config_error_def fails_to_compile_def test_regcomp_def)
  from createInstance_config_error_fails [OF d, of test_std test_regcomp "[]" True] q t
  show ?thesis by blast
qed


text \<open>
  Claim C1 says that \<^verbatim>\<open>createInstance\<close> returns no instance when a pattern does not compile
  or a parameter is not recognized. The hysteresis filter's \<^verbatim>\<open>createInstance\<close>, given the
  match pattern \<^verbatim>\<open>[a\<close> (an unmatched bracket) and a parameter \<^verbatim>\<open>bogus\<close>, returns the
  instance: the pattern text is set and still allocated, its \<^verbatim>\<open>regex_t\<close> was never filled.
\<close>

theorem ccr_createInstance_returns_instance:
  "(ccr_createInstance test_regcomp True [] [(''match'', ''[a''), (''bogus'', ''1'')]) =
     (Some \<lparr>ccr_match = Some ''[a'', ccr_nomatch = None, ccr_time = 60, ccr_count = 0,
            ccr_stats = \<lparr>n_add_count = 0, n_add_time = 0, n_modified = 0\<rparr>,
            ccr_re = None, ccr_nore = None\<rparr>,
      [MString ''[a'', MInstance])"
  by (simp add: ccr_createInstance_def ccr_param_def mxs_strdup_def CCR_DEFAULT_TIME_def
      test_regcomp_def)

text \<open>
  The first data-modifying statement routed through that instance hands the unfilled
  \<^verbatim>\<open>regex_t\<close> to \<^verbatim>\<open>regexec\<close>.
\<close>

lemma ccr_uncompiled_pattern_reaches_regexec:
  "ccr_routeQuery test_ext
      \<lparr>ccr_match = Some ''[a'', ccr_nomatch = None, ccr_time = 60, ccr_count = 0,
       ccr_stats = \<lparr>n_add_count = 0, n_add_time = 0, n_modified = 0\<rparr>,
       ccr_re = None, ccr_nore = None\<rparr>
      \<lparr>hints_left = 0, last_modification = 0\<rparr>
      (sql_buf ''INSERT INTO t VALUES (1)'') 100
   = Inl UncompiledRegex"
  by (simp add: ccr_routeQuery_def Let_def test_ops QUERY_OP_INSERT_def QUERY_OP_SELECT_def
      ccr_not_ignored_def ccr_matched_def regexec_t_def test_ext_def contiguous_def has_next_def
      sql_buf_def payload_def first_word_def)

text \<open>
  A parameter name given twice: the first copy is overwritten and stays on the heap when the
  construction fails.
\<close>

lemma qla_createInstance_repeated_name:
  "qla_createInstance test_std test_regcomp True [] [(''match'', ''a''), (''match'', ''[b'')] =
     (None, [MString ''a''])"
  by (simp add: qla_createInstance_def qla_param_def mxs_strdup_def test_regcomp_def
      qla_compile_match_def qla_compile_nomatch_def qla_release_def mxs_free_def regfree_def)

end
